(* ===== verification/Prelude.thy ===== *)
theory Prelude
  imports Main
begin

text \<open>
  Shared vocabulary of the cache-app development: the names of the model's types, the
  theorem collections the component theories fill, and the generic facts on maps and
  on folds of map updates that the cache proofs share.  The Go map
  \<open>map[string]*model.Order\<close> of the service and the primary-key table of the store are
  both partial functions from strings; every cache write of the source is one
  \<open>m(k \<mapsto> v)\<close>, and a bulk load is a left fold of such writes.  The generic
  scheduler \<open>run_sched\<close> replays traces of the three interleaving models.
\<close>

type_synonym uid = string

named_theorems store_simps "equations of the store model unfolded by component proofs"
named_theorems service_simps "equations of the service model unfolded by component proofs"

text \<open>
  A scheduler for threads that share a state: the list names the thread that takes the
  next step; an index naming no thread, or a thread that is done, is skipped.  The
  interleavings of theories \<open>Interleaving\<close>, \<open>Startup\<close> and \<open>Partitions\<close> replay concrete
  traces with it.
\<close>

fun run_sched ::
  "('t \<Rightarrow> bool) \<Rightarrow> ('t \<Rightarrow> 's \<Rightarrow> 't \<times> 's) \<Rightarrow> nat list \<Rightarrow> 's \<times> 't list \<Rightarrow> 's \<times> 't list" where
  "run_sched fin f [] c = c"
| "run_sched fin f (i # is) (s, ts) =
     (if i < length ts \<and> \<not> fin (ts ! i)
      then (case f (ts ! i) s of (t', s') \<Rightarrow> run_sched fin f is (s', ts[i := t']))
      else run_sched fin f is (s, ts))"

subsection \<open>Folds of map updates\<close>

text \<open>
  \<open>upd_all key xs m\<close> is the Go loop \<open>for _, x := range xs { m[key(x)] = x }\<close>.
\<close>

definition upd_all :: "('a \<Rightarrow> 'k) \<Rightarrow> 'a list \<Rightarrow> ('k \<rightharpoonup> 'a) \<Rightarrow> ('k \<rightharpoonup> 'a)" where
  "upd_all key xs m = fold (\<lambda>x c. c(key x \<mapsto> x)) xs m"

lemma upd_all_Nil [simp]: "upd_all key [] m = m"
  by (simp add: upd_all_def)

lemma upd_all_Cons [simp]: "upd_all key (x # xs) m = upd_all key xs (m(key x \<mapsto> x))"
  by (simp add: upd_all_def)

lemma upd_all_append: "upd_all key (xs @ ys) m = upd_all key ys (upd_all key xs m)"
  by (simp add: upd_all_def)

lemma upd_all_map_add:
  "upd_all key xs m = m ++ map_of (rev (map (\<lambda>x. (key x, x)) xs))"
proof (induction xs arbitrary: m)
  case Nil
  then show ?case by simp
next
  case (Cons x xs)
  show ?case
    using Cons.IH by (simp add: map_of_append map_add_def fun_eq_iff split: option.splits)
qed

lemma map_add_idem [simp]: "(m ++ m) = (m :: 'k \<rightharpoonup> 'v)"
  by (simp add: map_add_def fun_eq_iff split: option.splits)

text \<open>Replaying the same list of writes a second time changes nothing.\<close>

lemma upd_all_idem: "upd_all key xs (upd_all key xs m) = upd_all key xs m"
  by (simp add: upd_all_map_add map_add_assoc[symmetric])

lemma upd_all_notin:
  "k \<notin> key ` set xs \<Longrightarrow> upd_all key xs m k = m k"
proof -
  assume "k \<notin> key ` set xs"
  then have "map_of (rev (map (\<lambda>x. (key x, x)) xs)) k = None"
    by (force simp: map_of_eq_None_iff)
  then show ?thesis by (simp add: upd_all_map_add map_add_def)
qed

lemma upd_all_in:
  assumes "k \<in> key ` set xs"
  shows "\<exists>x \<in> set xs. key x = k \<and> upd_all key xs m k = Some x"
proof -
  from assms have "k \<in> fst ` set (rev (map (\<lambda>x. (key x, x)) xs))"
    by (force simp: image_image)
  then obtain v where v: "map_of (rev (map (\<lambda>x. (key x, x)) xs)) k = Some v"
    by (metis map_of_eq_None_iff not_None_eq)
  then have "(k, v) \<in> set (rev (map (\<lambda>x. (key x, x)) xs))"
    by (rule map_of_SomeD)
  then have "v \<in> set xs" and "key v = k" by auto
  with v show ?thesis by (auto simp: upd_all_map_add)
qed

lemma dom_upd_all: "dom (upd_all key xs m) = dom m \<union> key ` set xs"
  by (auto simp: upd_all_map_add dom_map_of_conv_image_fst image_image)

text \<open>An entry after the writes is either one of the written values or was there before.\<close>

lemma upd_all_cases:
  assumes "upd_all key xs m k = Some v"
  shows "(v \<in> set xs \<and> key v = k) \<or> m k = Some v"
proof (cases "k \<in> key ` set xs")
  case True
  from upd_all_in[OF True] obtain x where "x \<in> set xs" "key x = k" "upd_all key xs m k = Some x"
    by blast
  with assms show ?thesis by simp
next
  case False
  with assms show ?thesis by (simp add: upd_all_notin)
qed

text \<open>Writes whose values every key already maps to leave a map unchanged.\<close>

lemma upd_all_same:
  "\<forall>x \<in> set xs. m (key x) = Some x \<Longrightarrow> upd_all key xs m = m"
  by (induction xs) (auto simp: fun_upd_idem upd_all_def)

lemmas map_upd_lemmas = upd_all_notin upd_all_in upd_all_cases dom_upd_all upd_all_idem

text \<open>
  Every run of the scheduler is a run of an interleaving relation \<open>R\<close> in which any
  thread that is not done may take its step.
\<close>

lemma run_sched_reach:
  assumes step: "\<And>i ts s. i < length ts \<Longrightarrow> \<not> fin (ts ! i) \<Longrightarrow>
                   R (s, ts) (snd (f (ts ! i) s), ts[i := fst (f (ts ! i) s)])"
  shows "R\<^sup>*\<^sup>* c (run_sched fin f is c)"
proof (induction "is" arbitrary: c)
  case (Cons i "is")
  obtain s ts where c: "c = (s, ts)" by fastforce
  show ?case
  proof (cases "i < length ts \<and> \<not> fin (ts ! i)")
    case True
    with step have "R (s, ts) (snd (f (ts ! i) s), ts[i := fst (f (ts ! i) s)])" by blast
    with True c Cons.IH[of "(snd (f (ts ! i) s), ts[i := fst (f (ts ! i) s)])"] show ?thesis
      by (simp add: case_prod_beta converse_rtranclp_into_rtranclp)
  next
    case False
    then have "run_sched fin f (i # is) (s, ts) = run_sched fin f is (s, ts)"
      by (subst run_sched.simps) (simp only: False if_False)
    with c Cons.IH[of c] show ?thesis by simp
  qed
qed simp

text \<open>A cost summed over a list of threads, after one thread changes.\<close>

lemma sum_list_map_update:
  "i < length xs \<Longrightarrow> sum_list (map f (xs[i := x])) + f (xs ! i) = sum_list (map f xs) + (f x :: nat)"
proof (induction xs arbitrary: i)
  case (Cons y xs)
  then show ?case by (cases i) simp_all
qed simp

end
