(* ===== verification/Model.thy ===== *)
theory Model
  imports Prelude
begin

text \<open>
  The order entity and its read-only projection.  The Go package \<open>internal/model\<close>
  (\<open>Order\<close>, \<open>Delivery\<close>, \<open>Payment\<close>, \<open>Item\<close>) and \<open>internal/dto/response\<close> are not part
  of the sources; their records are built from the attribute lists of the spec
  (sections 3 and 6).  Go strings are \<open>string\<close>, Go \<open>int\<close> fields are \<open>int\<close> (no arithmetic
  is done on them, so their width only matters where the store checks it), and
  \<open>time.Time\<close> is an instant counted in nanoseconds.  Fields are named after the Go
  fields; the two that \<open>Item\<close> shares with other records carry an \<open>Item\<close> prefix, and the
  response fields an \<open>R\<close> prefix.

  \<open>model_to_response\<close> and \<open>items_to_response\<close> translate
  \<open>orderService.modelToResponse\<close> and \<open>orderService.itemsToResponse\<close>
  (service/order_service.go).
\<close>

record delivery =
  Name :: string
  Phone :: string
  Zip :: string
  City :: string
  Address :: string
  Region :: string
  Email :: string

record payment =
  Transaction :: string
  Currency :: string
  Provider :: string
  Amount :: int
  PaymentDT :: int
  Bank :: string
  DeliveryCost :: int
  GoodsTotal :: int

record item =
  ChrtID :: int
  ItemTrackNumber :: string
  Price :: int
  Rid :: string
  ItemName :: string
  Sale :: int
  Size :: string
  TotalPrice :: int
  NmID :: int
  Brand :: string
  Status :: int

record order =
  OrderUID :: uid
  TrackNumber :: string
  Entry :: string
  Delivery :: delivery
  Payment :: payment
  Items :: "item list"
  Locale :: string
  InternalSignature :: string
  CustomerID :: string
  DeliveryService :: string
  Shardkey :: string
  SmID :: int
  DateCreated :: int
  OofShard :: string

subsection \<open>Response shapes\<close>

record delivery_response =
  RName :: string
  RPhone :: string
  RZip :: string
  RCity :: string
  RAddress :: string
  RRegion :: string
  REmail :: string

record payment_response =
  RTransaction :: string
  RCurrency :: string
  RProvider :: string
  RAmount :: int
  RPaymentDT :: int
  RBank :: string
  RDeliveryCost :: int
  RGoodsTotal :: int

record item_response =
  RChrtID :: int
  RTrackNumber :: string
  RPrice :: int
  RRid :: string
  RItemName :: string
  RSale :: int
  RSize :: string
  RTotalPrice :: int
  RNmID :: int
  RBrand :: string
  RStatus :: int

record order_response =
  ROrderUID :: uid
  ROrderTrackNumber :: string
  REntry :: string
  RDelivery :: delivery_response
  RPayment :: payment_response
  RItems :: "item_response list"
  RDateCreated :: int
  ROofShard :: string

subsection \<open>The projection\<close>

text \<open>The element conversion inside the loop of \<open>itemsToResponse\<close>.\<close>

definition item_to_response :: "item \<Rightarrow> item_response" where
  "item_to_response i =
     \<lparr>RChrtID = ChrtID i, RTrackNumber = ItemTrackNumber i, RPrice = Price i, RRid = Rid i,
      RItemName = ItemName i, RSale = Sale i, RSize = Size i, RTotalPrice = TotalPrice i,
      RNmID = NmID i, RBrand = Brand i, RStatus = Status i\<rparr>"

text \<open>
  \<open>itemsToResponse\<close> starts from an empty slice and appends one converted item per
  iteration of its \<open>range\<close> loop.
\<close>

definition items_to_response :: "item list \<Rightarrow> item_response list" where
  "items_to_response items = fold (\<lambda>i acc. acc @ [item_to_response i]) items []"

definition model_to_response :: "order \<Rightarrow> order_response" where
  "model_to_response od =
     \<lparr>ROrderUID = OrderUID od, ROrderTrackNumber = TrackNumber od, REntry = Entry od,
      RDelivery = \<lparr>RName = Name (Delivery od), RPhone = Phone (Delivery od),
        RZip = Zip (Delivery od), RCity = City (Delivery od), RAddress = Address (Delivery od),
        RRegion = Region (Delivery od), REmail = Email (Delivery od)\<rparr>,
      RPayment = \<lparr>RTransaction = Transaction (Payment od), RCurrency = Currency (Payment od),
        RProvider = Provider (Payment od), RAmount = Amount (Payment od),
        RPaymentDT = PaymentDT (Payment od), RBank = Bank (Payment od),
        RDeliveryCost = DeliveryCost (Payment od), RGoodsTotal = GoodsTotal (Payment od)\<rparr>,
      RItems = items_to_response (Items od),
      RDateCreated = DateCreated od, ROofShard = OofShard od\<rparr>"

subsection \<open>The projected part of an order\<close>

text \<open>
  The attributes \<open>modelToResponse\<close> reads.  Two orders with the same projected part
  have the same response; the remaining attributes never reach a caller.
\<close>

definition visible_part ::
  "order \<Rightarrow> uid \<times> string \<times> string \<times> delivery \<times> payment \<times> item list \<times> int \<times> string" where
  "visible_part od =
     (OrderUID od, TrackNumber od, Entry od, Delivery od, Payment od, Items od, DateCreated od, OofShard od)"

subsection \<open>Sample data\<close>

text \<open>The order of the service's README sample, used by the witnesses.\<close>

definition ex_delivery :: delivery where
  "ex_delivery = \<lparr>Name = ''Test Testov'', Phone = ''+9720000000'', Zip = ''2639809'',
     City = ''Kiryat Mozkin'', Address = ''Ploshad Mira 15'', Region = ''Kraiot'',
     Email = ''test@gmail.com''\<rparr>"

definition ex_payment :: payment where
  "ex_payment = \<lparr>Transaction = ''b563feb7b2b84b6test'', Currency = ''USD'', Provider = ''wbpay'',
     Amount = 1817, PaymentDT = 1637907727, Bank = ''alpha'', DeliveryCost = 1500,
     GoodsTotal = 317\<rparr>"

definition ex_order :: "uid \<Rightarrow> string \<Rightarrow> order" where
  "ex_order u t = \<lparr>OrderUID = u, TrackNumber = t, Entry = ''WBIL'', Delivery = ex_delivery,
     Payment = ex_payment, Items = [], Locale = ''en'', InternalSignature = [],
     CustomerID = ''test'', DeliveryService = ''meest'', Shardkey = ''9'', SmID = 99,
     DateCreated = 1637907727000000000, OofShard = ''1''\<rparr>"

subsection \<open>Lemmas\<close>

lemma fold_append_map: "fold (\<lambda>i acc. acc @ [f i]) xs acc = acc @ map f xs"
  by (induction xs arbitrary: acc) auto

lemma items_to_response_map: "items_to_response items = map item_to_response items"
  by (simp add: items_to_response_def fold_append_map)

lemma item_to_response_inj: "item_to_response i = item_to_response j \<longleftrightarrow> i = j"
  by (cases i, cases j) (simp add: item_to_response_def)

lemma items_to_response_inj:
  "items_to_response is = items_to_response js \<longleftrightarrow> is = js"
proof -
  have "inj item_to_response" by (auto intro: injI simp: item_to_response_inj)
  then show ?thesis by (simp add: items_to_response_map inj_map_eq_map)
qed

lemma delivery_eq_iff:
  "(d :: delivery) = d' \<longleftrightarrow> Name d = Name d' \<and> Phone d = Phone d' \<and> Zip d = Zip d' \<and>
     City d = City d' \<and> Address d = Address d' \<and> Region d = Region d' \<and> Email d = Email d'"
  by (cases d, cases d') simp

lemma payment_eq_iff:
  "(p :: payment) = p' \<longleftrightarrow> Transaction p = Transaction p' \<and> Currency p = Currency p' \<and>
     Provider p = Provider p' \<and> Amount p = Amount p' \<and> PaymentDT p = PaymentDT p' \<and>
     Bank p = Bank p' \<and> DeliveryCost p = DeliveryCost p' \<and> GoodsTotal p = GoodsTotal p'"
  by (cases p, cases p') simp

lemmas response_facts = items_to_response_map items_to_response_inj delivery_eq_iff payment_eq_iff

end
