(* ===== verification/Store.thy ===== *)
theory Store
  imports Model
begin

text \<open>
  The durable store: the \<open>orders\<close> table of repository/db.go and the three SQL
  statements of repository/order_repo.go.  The table is a map from the primary key
  \<open>order_uid\<close> to a row.  The JSONB blobs \<open>delivery\<close>, \<open>payment\<close> and \<open>items\<close> are kept
  as the decoded values: the Go structs hold only strings and integers, and the model
  takes their \<open>json.Marshal\<close>/\<open>json.Unmarshal\<close> round trip as the identity.

  What the column types of \<open>createTables\<close> do to a written value is modelled:
  \<^item> \<open>VARCHAR(n)\<close> rejects a longer string with SQLSTATE 22001, except that excess
    characters that are all spaces are cut off silently (\<open>varchar_ok\<close>, \<open>varchar\<close>);
  \<^item> \<open>INTEGER\<close> holds 32 bits: pgx refuses to encode a Go \<open>int\<close> outside that range
    before the statement is sent (\<open>int4_ok\<close>);
  \<^item> \<open>TIMESTAMP WITH TIME ZONE\<close> has microsecond resolution, so the nanoseconds of a
    \<open>time.Time\<close> are dropped on the way in (\<open>pg_timestamptz\<close>).
  A failure of the connection or of the statement's deadline is not a function of the
  data; it is an argument \<open>fault\<close> of each statement, chosen by the environment.
\<close>

datatype db_error = PgError string | DriverError | ConnError | ErrNoRows

record order_row =
  c_order_uid :: uid
  c_track_number :: string
  c_entry :: string
  c_delivery :: delivery
  c_payment :: payment
  c_items :: "item list"
  c_locale :: string
  c_internal_signature :: string
  c_customer_id :: string
  c_delivery_service :: string
  c_shardkey :: string
  c_sm_id :: int
  c_date_created :: int
  c_oof_shard :: string

type_synonym orders_table = "uid \<rightharpoonup> order_row"

subsection \<open>Column types\<close>

definition varchar_ok :: "nat \<Rightarrow> string \<Rightarrow> bool" where
  "varchar_ok n s \<longleftrightarrow> list_all (\<lambda>c. c = CHR '' '') (drop n s)"

definition varchar :: "nat \<Rightarrow> string \<Rightarrow> string" where
  "varchar n s = take n s"

definition int4_ok :: "int \<Rightarrow> bool" where
  "int4_ok v \<longleftrightarrow> - (2 ^ 31) \<le> v \<and> v < 2 ^ 31"

definition pg_timestamptz :: "int \<Rightarrow> int" where
  "pg_timestamptz t = t div 1000 * 1000"

text \<open>Every bounded column of \<open>orders\<close> accepts the value written into it.\<close>

definition columns_ok :: "order \<Rightarrow> bool" where
  "columns_ok od \<longleftrightarrow>
     varchar_ok 255 (OrderUID od) \<and> varchar_ok 255 (TrackNumber od) \<and>
     varchar_ok 50 (Entry od) \<and> varchar_ok 10 (Locale od) \<and>
     varchar_ok 255 (InternalSignature od) \<and> varchar_ok 255 (CustomerID od) \<and>
     varchar_ok 100 (DeliveryService od) \<and> varchar_ok 50 (Shardkey od) \<and>
     varchar_ok 50 (OofShard od)"

text \<open>The row the fourteen parameters of \<open>SaveOrder\<close>'s \<open>Exec\<close> become.\<close>

definition order_to_row :: "order \<Rightarrow> order_row" where
  "order_to_row od =
     \<lparr>c_order_uid = varchar 255 (OrderUID od), c_track_number = varchar 255 (TrackNumber od),
      c_entry = varchar 50 (Entry od), c_delivery = Delivery od, c_payment = Payment od,
      c_items = Items od, c_locale = varchar 10 (Locale od),
      c_internal_signature = varchar 255 (InternalSignature od),
      c_customer_id = varchar 255 (CustomerID od),
      c_delivery_service = varchar 100 (DeliveryService od),
      c_shardkey = varchar 50 (Shardkey od), c_sm_id = SmID od,
      c_date_created = pg_timestamptz (DateCreated od),
      c_oof_shard = varchar 50 (OofShard od)\<rparr>"

subsection \<open>Statements\<close>

text \<open>
  \<open>INSERT ... ON CONFLICT (order_uid) DO UPDATE SET\<close>: a new key inserts the whole
  row; an existing key overwrites exactly the six columns of the \<open>SET\<close> list and keeps
  the stored locale, internal_signature, customer_id, delivery_service, shardkey,
  sm_id and oof_shard.
\<close>

definition upsert_row :: "order_row option \<Rightarrow> order_row \<Rightarrow> order_row" where
  "upsert_row old new =
     (case old of
        None \<Rightarrow> new
      | Some r \<Rightarrow> r\<lparr>c_track_number := c_track_number new, c_entry := c_entry new,
                    c_delivery := c_delivery new, c_payment := c_payment new,
                    c_items := c_items new, c_date_created := c_date_created new\<rparr>)"

text \<open>
  \<open>r.db.Exec(ctx, query, ...)\<close>: the pool acquires a connection and prepares the
  statement first (\<open>fault\<close>: a connection, deadline or server error, among them the
  unique violation), then pgx encodes the parameters (the \<open>INTEGER\<close> range of
  \<open>sm_id\<close>), then the server checks the \<open>VARCHAR\<close> columns; the statement is atomic,
  and every failure is taken to leave the table as it was (an error reported after the
  commit, with the row written, is not modelled).
\<close>

definition exec_upsert :: "db_error option \<Rightarrow> orders_table \<Rightarrow> order \<Rightarrow> db_error + orders_table" where
  "exec_upsert fault tbl od =
     (case fault of
        Some e \<Rightarrow> Inl e
      | None \<Rightarrow>
          if \<not> int4_ok (SmID od) then Inl DriverError
          else if \<not> columns_ok od then Inl (PgError ''22001'')
          else (let r = order_to_row od
                in Inr (tbl(c_order_uid r \<mapsto> upsert_row (tbl (c_order_uid r)) r))))"

text \<open>\<open>SELECT ... FROM orders WHERE order_uid = $1\<close> followed by \<open>Scan\<close>.\<close>

definition select_row :: "db_error option \<Rightarrow> orders_table \<Rightarrow> uid \<Rightarrow> db_error + order_row" where
  "select_row fault tbl k =
     (case fault of
        Some e \<Rightarrow> Inl e
      | None \<Rightarrow> (case tbl k of None \<Rightarrow> Inl ErrNoRows | Some r \<Rightarrow> Inr r))"

text \<open>The scanned columns and the three unmarshalled blobs, as one \<open>model.Order\<close>.\<close>

definition row_to_order :: "order_row \<Rightarrow> order" where
  "row_to_order r =
     \<lparr>OrderUID = c_order_uid r, TrackNumber = c_track_number r, Entry = c_entry r,
      Delivery = c_delivery r, Payment = c_payment r, Items = c_items r,
      Locale = c_locale r, InternalSignature = c_internal_signature r,
      CustomerID = c_customer_id r, DeliveryService = c_delivery_service r,
      Shardkey = c_shardkey r, SmID = c_sm_id r, DateCreated = c_date_created r,
      OofShard = c_oof_shard r\<rparr>"

subsection \<open>Well-formed tables\<close>

text \<open>A row the column types can hold.\<close>

definition row_fits :: "order_row \<Rightarrow> bool" where
  "row_fits r \<longleftrightarrow>
     length (c_order_uid r) \<le> 255 \<and> length (c_track_number r) \<le> 255 \<and>
     length (c_entry r) \<le> 50 \<and> length (c_locale r) \<le> 10 \<and>
     length (c_internal_signature r) \<le> 255 \<and> length (c_customer_id r) \<le> 255 \<and>
     length (c_delivery_service r) \<le> 100 \<and> length (c_shardkey r) \<le> 50 \<and>
     length (c_oof_shard r) \<le> 50 \<and> int4_ok (c_sm_id r) \<and> c_date_created r mod 1000 = 0"

definition table_wf :: "orders_table \<Rightarrow> bool" where
  "table_wf tbl \<longleftrightarrow> (\<forall>k r. tbl k = Some r \<longrightarrow> c_order_uid r = k \<and> row_fits r)"

text \<open>
  The columns the upsert writes on a conflict, with the key.  A cached order
  \<^emph>\<open>mirrors\<close> a row when the row holds what writing the order would have put into them.
\<close>

definition set_columns ::
  "order_row \<Rightarrow> uid \<times> string \<times> string \<times> delivery \<times> payment \<times> item list \<times> int" where
  "set_columns r =
     (c_order_uid r, c_track_number r, c_entry r, c_delivery r, c_payment r, c_items r,
      c_date_created r)"

definition mirrors :: "order_row \<Rightarrow> order \<Rightarrow> bool" where
  "mirrors r od \<longleftrightarrow> set_columns r = set_columns (order_to_row od)"

text \<open>The upsert never changes the key of the row it overwrites.\<close>

definition same_key :: "order_row option \<Rightarrow> order_row \<Rightarrow> bool" where
  "same_key old r \<longleftrightarrow> (\<forall>r0. old = Some r0 \<longrightarrow> c_order_uid r0 = c_order_uid r)"

subsection \<open>Lemmas\<close>

lemma varchar_ok_le [simp]: "length s \<le> n \<Longrightarrow> varchar_ok n s"
  by (simp add: varchar_ok_def)

lemma varchar_id [simp]: "length s \<le> n \<Longrightarrow> varchar n s = s"
  by (simp add: varchar_def)

lemma length_varchar: "length (varchar n s) \<le> n"
  by (simp add: varchar_def)

lemma pg_timestamptz_aligned: "pg_timestamptz t mod 1000 = 0"
  by (simp add: pg_timestamptz_def)

lemma pg_timestamptz_id [simp]: "t mod 1000 = 0 \<Longrightarrow> pg_timestamptz t = t"
  using div_mult_mod_eq[of t 1000] by (simp add: pg_timestamptz_def)

lemma pg_timestamptz_bounds: "pg_timestamptz t \<le> t \<and> t - pg_timestamptz t < 1000"
proof -
  have "t - pg_timestamptz t = t mod 1000"
    by (simp add: pg_timestamptz_def minus_div_mult_eq_mod)
  moreover have "0 \<le> t mod 1000" and "t mod 1000 < 1000" by simp_all
  ultimately show ?thesis by linarith
qed

lemma row_fits_order_to_row: "int4_ok (SmID od) \<Longrightarrow> row_fits (order_to_row od)"
  by (simp add: row_fits_def order_to_row_def length_varchar pg_timestamptz_aligned)

lemma exec_upsert_Inr_iff [store_simps]:
  "exec_upsert fault tbl od = Inr tbl' \<longleftrightarrow>
     int4_ok (SmID od) \<and> fault = None \<and> columns_ok od \<and>
     tbl' = tbl(c_order_uid (order_to_row od) \<mapsto>
                upsert_row (tbl (c_order_uid (order_to_row od))) (order_to_row od))"
  by (auto simp: exec_upsert_def Let_def split: option.splits)

lemma select_row_Inr_iff [store_simps]:
  "select_row fault tbl k = Inr r \<longleftrightarrow> fault = None \<and> tbl k = Some r"
  by (auto simp: select_row_def split: option.splits)

lemma set_columns_upsert:
  "same_key old r \<Longrightarrow> set_columns (upsert_row old r) = set_columns r"
  by (cases old) (simp_all add: upsert_row_def set_columns_def same_key_def)

lemma row_fits_upsert:
  "row_fits r \<Longrightarrow> (\<forall>r0. old = Some r0 \<longrightarrow> row_fits r0) \<Longrightarrow> row_fits (upsert_row old r)"
  by (cases old) (simp_all add: upsert_row_def row_fits_def)

lemma c_order_uid_upsert:
  "same_key old r \<Longrightarrow> c_order_uid (upsert_row old r) = c_order_uid r"
  by (cases old) (simp_all add: upsert_row_def same_key_def)

lemma table_wf_same_key: "table_wf tbl \<Longrightarrow> same_key (tbl (c_order_uid r)) r"
  by (simp add: table_wf_def same_key_def)

text \<open>A successful upsert keeps the table well formed.\<close>

lemma exec_upsert_table_wf:
  assumes wf: "table_wf tbl" and ok: "exec_upsert fault tbl od = Inr tbl'"
  shows "table_wf tbl'"
proof -
  let ?r = "order_to_row od"
  let ?k = "c_order_uid ?r"
  from ok have i4: "int4_ok (SmID od)" and tbl': "tbl' = tbl(?k \<mapsto> upsert_row (tbl ?k) ?r)"
    by (simp_all add: exec_upsert_Inr_iff)
  from wf have "\<forall>r0. tbl ?k = Some r0 \<longrightarrow> row_fits r0"
    by (simp add: table_wf_def)
  then have "row_fits (upsert_row (tbl ?k) ?r)"
    by (rule row_fits_upsert[OF row_fits_order_to_row[OF i4]])
  moreover have "c_order_uid (upsert_row (tbl ?k) ?r) = ?k"
    by (rule c_order_uid_upsert[OF table_wf_same_key[OF wf]])
  ultimately show ?thesis
    using wf by (simp add: tbl' table_wf_def)
qed

text \<open>The table a successful upsert leaves.\<close>

lemma exec_upsert_table:
  "exec_upsert fault tbl od = Inr tbl' \<Longrightarrow>
     tbl' = tbl(c_order_uid (order_to_row od) \<mapsto> upsert_row (tbl (c_order_uid (order_to_row od))) (order_to_row od))"
  unfolding exec_upsert_Inr_iff by (elim conjE)

text \<open>After a successful upsert the written order's key holds a row it mirrors.\<close>

lemma exec_upsert_mirrors:
  assumes wf: "table_wf tbl" and ok: "exec_upsert fault tbl od = Inr tbl'"
  shows "\<exists>r. tbl' (c_order_uid (order_to_row od)) = Some r \<and> mirrors r od"
proof -
  let ?r = "order_to_row od"
  let ?k = "c_order_uid ?r"
  from ok have "tbl' ?k = Some (upsert_row (tbl ?k) ?r)"
    by (simp add: exec_upsert_Inr_iff)
  moreover have "mirrors (upsert_row (tbl ?k) ?r) od"
    using set_columns_upsert[OF table_wf_same_key[OF wf]] by (simp add: mirrors_def)
  ultimately show ?thesis by blast
qed

text \<open>Scanning a stored row gives back an order that writes the same row.\<close>

lemma order_to_row_of_row_to_order:
  "row_fits r \<Longrightarrow> order_to_row (row_to_order r) = r"
  by (cases r) (simp add: row_fits_def order_to_row_def row_to_order_def)

lemma mirrors_row_to_order: "row_fits r \<Longrightarrow> mirrors r (row_to_order r)"
  by (simp add: mirrors_def order_to_row_of_row_to_order)

lemma table_wf_row:
  "table_wf tbl \<Longrightarrow> tbl k = Some r \<Longrightarrow> c_order_uid r = k \<and> row_fits r"
  by (simp add: table_wf_def)

text \<open>What a written order reads back as.\<close>

lemma pg_timestamptz_fixed_iff: "pg_timestamptz t = t \<longleftrightarrow> t mod 1000 = 0"
  by (metis pg_timestamptz_aligned pg_timestamptz_id)

lemma varchar_fixed_iff: "varchar n s = s \<longleftrightarrow> length s \<le> n"
  by (simp add: varchar_def)

lemma row_to_order_order_to_row:
  "row_to_order (order_to_row od) =
     od\<lparr>OrderUID := varchar 255 (OrderUID od), TrackNumber := varchar 255 (TrackNumber od),
        Entry := varchar 50 (Entry od), Locale := varchar 10 (Locale od),
        InternalSignature := varchar 255 (InternalSignature od),
        CustomerID := varchar 255 (CustomerID od),
        DeliveryService := varchar 100 (DeliveryService od), Shardkey := varchar 50 (Shardkey od),
        DateCreated := pg_timestamptz (DateCreated od), OofShard := varchar 50 (OofShard od)\<rparr>"
  by (cases od) (simp add: row_to_order_def order_to_row_def)

lemma c_order_uid_order_to_row [simp]: "c_order_uid (order_to_row od) = varchar 255 (OrderUID od)"
  by (simp add: order_to_row_def)

lemma OrderUID_row_to_order [simp]: "OrderUID (row_to_order r) = c_order_uid r"
  by (simp add: row_to_order_def)

end
