(* ===== verification/Repository.thy ===== *)
theory Repository
  imports Store
begin

text \<open>
  \<open>orderRepo\<close> of repository/order_repo.go over the store model.  \<open>SaveOrder\<close>
  fills in a missing identifier with the UUID the library draws (the argument \<open>gen\<close>),
  runs the upsert and maps its error; \<open>GetOrderByUID\<close> selects and scans one row;
  \<open>GetAllOrders\<close> enumerates the keys and fetches each one, skipping every key whose
  scan or fetch fails.

  The three \<open>json.Marshal\<close> calls of \<open>SaveOrder\<close> cannot fail on structs of strings
  and integers, so their error branches are not part of the model.  What the store
  enumeration hands to \<open>GetAllOrders\<close> is the environment's choice, \<open>scan_env\<close>: the
  query may fail, \<open>rows.Next\<close> may stop early (the code never looks at \<open>rows.Err\<close>), a
  scan may fail, and each per-key fetch has its own fault.
\<close>

datatype repo_error = ErrOrderExists uid | ErrSaveOrder db_error | ErrDb db_error

definition assign_uid :: "uid \<Rightarrow> order \<Rightarrow> order" where
  "assign_uid gen od = (if OrderUID od = [] then od\<lparr>OrderUID := gen\<rparr> else od)"

text \<open>
  Result, the order as \<open>SaveOrder\<close> leaves it behind its pointer, and the table.
\<close>

definition save_order ::
  "uid \<Rightarrow> db_error option \<Rightarrow> orders_table \<Rightarrow> order \<Rightarrow> (repo_error + uid) \<times> order \<times> orders_table" where
  "save_order gen fault tbl od =
     (let od' = assign_uid gen od in
      case exec_upsert fault tbl od' of
        Inl (PgError code) \<Rightarrow>
          if code = ''23505'' then (Inl (ErrOrderExists (OrderUID od')), od', tbl)
          else (Inl (ErrSaveOrder (PgError code)), od', tbl)
      | Inl e \<Rightarrow> (Inl (ErrSaveOrder e), od', tbl)
      | Inr tbl' \<Rightarrow> (Inr (OrderUID od'), od', tbl'))"

definition repo_get_order_by_uid :: "db_error option \<Rightarrow> orders_table \<Rightarrow> uid \<Rightarrow> repo_error + order" where
  "repo_get_order_by_uid fault tbl k =
     (case select_row fault tbl k of
        Inl e \<Rightarrow> Inl (ErrDb e)
      | Inr r \<Rightarrow> Inr (row_to_order r))"

record scan_env =
  query_fault :: "db_error option"
  rows :: "(db_error + uid) list"
  fetch_fault :: "uid \<Rightarrow> db_error option"

text \<open>The \<open>for rows.Next()\<close> loop of \<open>GetAllOrders\<close>; every failure is a \<open>continue\<close>.\<close>

fun fetch_orders ::
  "(uid \<Rightarrow> db_error option) \<Rightarrow> orders_table \<Rightarrow> (db_error + uid) list \<Rightarrow> order list" where
  "fetch_orders ff tbl [] = []"
| "fetch_orders ff tbl (Inl _ # rs) = fetch_orders ff tbl rs"
| "fetch_orders ff tbl (Inr k # rs) =
     (case repo_get_order_by_uid (ff k) tbl k of
        Inl _ \<Rightarrow> fetch_orders ff tbl rs
      | Inr od \<Rightarrow> od # fetch_orders ff tbl rs)"

definition get_all_orders :: "scan_env \<Rightarrow> orders_table \<Rightarrow> repo_error + order list" where
  "get_all_orders env tbl =
     (case query_fault env of
        Some e \<Rightarrow> Inl (ErrDb e)
      | None \<Rightarrow> Inr (fetch_orders (fetch_fault env) tbl (rows env)))"

text \<open>An enumeration that delivers every key of the table and no fault on the way.\<close>

definition complete_scan :: "scan_env \<Rightarrow> orders_table \<Rightarrow> bool" where
  "complete_scan env tbl \<longleftrightarrow>
     query_fault env = None \<and> Inr ` dom tbl \<subseteq> set (rows env) \<and>
     (\<forall>k \<in> dom tbl. fetch_fault env k = None)"

subsection \<open>Lemmas\<close>

lemma OrderUID_assign_uid:
  "OrderUID (assign_uid gen od) = (if OrderUID od = [] then gen else OrderUID od)"
  by (simp add: assign_uid_def)

lemma save_order_exec_Inr:
  "exec_upsert fault tbl (assign_uid gen od) = Inr tbl' \<Longrightarrow>
     save_order gen fault tbl od = (Inr (OrderUID (assign_uid gen od)), assign_uid gen od, tbl')"
  by (simp add: save_order_def Let_def)

lemma save_order_exec_Inl:
  "exec_upsert fault tbl (assign_uid gen od) = Inl e \<Longrightarrow>
     \<exists>e'. save_order gen fault tbl od = (Inl e', assign_uid gen od, tbl)"
  by (cases e) (simp_all add: save_order_def Let_def)

lemma repo_get_Inr_iff [store_simps]:
  "repo_get_order_by_uid fault tbl k = Inr od \<longleftrightarrow>
     fault = None \<and> (\<exists>r. tbl k = Some r \<and> od = row_to_order r)"
  by (auto simp: repo_get_order_by_uid_def select_row_def split: sum.splits option.splits)

lemma repo_get_not_found:
  "tbl k = None \<Longrightarrow> repo_get_order_by_uid fault tbl k = Inl (ErrDb (case fault of None \<Rightarrow> ErrNoRows | Some e \<Rightarrow> e))"
  by (simp add: repo_get_order_by_uid_def select_row_def split: option.splits)

text \<open>Every fetched order is the scan of the row stored under its identifier.\<close>

lemma fetch_orders_rows:
  "table_wf tbl \<Longrightarrow> od \<in> set (fetch_orders ff tbl rs) \<Longrightarrow>
     \<exists>r. tbl (OrderUID od) = Some r \<and> od = row_to_order r"
proof (induction ff tbl rs rule: fetch_orders.induct)
  case (3 ff tbl k rs)
  then show ?case
    by (auto simp: repo_get_Inr_iff dest: table_wf_row split: sum.splits)
qed simp_all

text \<open>A key that is delivered and fetched without fault is among the results.\<close>

lemma fetch_orders_complete:
  "tbl k = Some r \<Longrightarrow> Inr k \<in> set rs \<Longrightarrow> ff k = None \<Longrightarrow>
     row_to_order r \<in> set (fetch_orders ff tbl rs)"
proof (induction ff tbl rs rule: fetch_orders.induct)
  case (3 ff tbl k' rs)
  then show ?case
    by (cases "k' = k") (auto simp: repo_get_order_by_uid_def select_row_def split: sum.splits)
qed simp_all

end
