(* ===== verification/Service.thy ===== *)
theory Service
  imports Repository
begin

text \<open>
  \<open>orderService\<close> of service/order_service.go.  Its state is the Go map
  \<open>cache\<close>; the store behind \<open>repo\<close> is threaded beside it, so an operation maps a
  state \<open>svc\<close> (table and cache) to a result and the next state.  Each operation runs
  here as one atomic step: the read/write lock only matters when operations overlap,
  which theory \<open>Interleaving\<close> models.  The faults of the store calls an operation makes
  are its arguments.
\<close>

record svc =
  db :: orders_table
  cache :: "uid \<rightharpoonup> order"

text \<open>
  \<open>CreateOrder\<close>: save first; only a successful save writes the cache, under the
  identifier the save may have filled in (it mutates the order behind the pointer).
\<close>

definition create_order ::
  "uid \<Rightarrow> db_error option \<Rightarrow> svc \<Rightarrow> order \<Rightarrow> (repo_error + unit) \<times> svc" where
  "create_order gen fault s od =
     (case save_order gen fault (db s) od of
        (Inl e, _, tbl') \<Rightarrow> (Inl e, s\<lparr>db := tbl'\<rparr>)
      | (Inr _, od', tbl') \<Rightarrow> (Inr (), s\<lparr>db := tbl', cache := (cache s)(OrderUID od' \<mapsto> od')\<rparr>))"

text \<open>
  \<open>GetOrderByUID\<close>: a hit answers from the cache; a miss reads the store and, on
  success, fills the cache under the requested identifier.
\<close>

definition get_order_by_uid ::
  "db_error option \<Rightarrow> svc \<Rightarrow> uid \<Rightarrow> (repo_error + order_response) \<times> svc" where
  "get_order_by_uid fault s k =
     (case cache s k of
        Some od \<Rightarrow> (Inr (model_to_response od), s)
      | None \<Rightarrow>
          (case repo_get_order_by_uid fault (db s) k of
             Inl e \<Rightarrow> (Inl e, s)
           | Inr od \<Rightarrow> (Inr (model_to_response od), s\<lparr>cache := (cache s)(k \<mapsto> od)\<rparr>)))"

text \<open>\<open>RestoreCacheFromDB\<close>: one exclusive section writing every fetched order.\<close>

definition restore_cache_from_db :: "scan_env \<Rightarrow> svc \<Rightarrow> (repo_error + unit) \<times> svc" where
  "restore_cache_from_db env s =
     (case get_all_orders env (db s) of
        Inl e \<Rightarrow> (Inl e, s)
      | Inr orders \<Rightarrow> (Inr (), s\<lparr>cache := upd_all OrderUID orders (cache s)\<rparr>))"

text \<open>\<open>NewOrderService\<close>: an empty cache, then a restore whose error is only logged.\<close>

definition new_order_service :: "scan_env \<Rightarrow> orders_table \<Rightarrow> svc" where
  "new_order_service env tbl = snd (restore_cache_from_db env \<lparr>db = tbl, cache = Map.empty\<rparr>)"

text \<open>The \<open>OrderService\<close> interface as one datatype of calls.\<close>

datatype svc_op =
    OpCreate uid "db_error option" order
  | OpGet "db_error option" uid
  | OpRestore scan_env

fun svc_step :: "svc_op \<Rightarrow> svc \<Rightarrow> svc" where
  "svc_step (OpCreate gen fault od) s = snd (create_order gen fault s od)"
| "svc_step (OpGet fault k) s = snd (get_order_by_uid fault s k)"
| "svc_step (OpRestore env) s = snd (restore_cache_from_db env s)"

subsection \<open>Coherence of cache and store\<close>

text \<open>
  Every cached order sits under its own identifier, which fits its column, and the row
  stored under that identifier holds what writing the order would have put into the
  columns an upsert overwrites.  The columns an upsert keeps are not covered: theory
  \<open>Findings\<close> shows that they drift apart.
\<close>

definition coherent :: "svc \<Rightarrow> bool" where
  "coherent s \<longleftrightarrow> table_wf (db s) \<and>
     (\<forall>k od. cache s k = Some od \<longrightarrow>
        OrderUID od = k \<and> length k \<le> 255 \<and> (\<exists>r. db s k = Some r \<and> mirrors r od))"

text \<open>The calls whose identifier the \<open>order_uid\<close> column holds without cutting it.\<close>

fun op_fits :: "svc_op \<Rightarrow> bool" where
  "op_fits (OpCreate gen fault od) \<longleftrightarrow> length (OrderUID (assign_uid gen od)) \<le> 255"
| "op_fits _ \<longleftrightarrow> True"

text \<open>A sequence of calls, one after the other, and the service of an empty store.\<close>

definition svc_run :: "svc_op list \<Rightarrow> svc \<Rightarrow> svc" where
  "svc_run ops s = fold svc_step ops s"

definition empty_svc :: svc where
  "empty_svc = \<lparr>db = Map.empty, cache = Map.empty\<rparr>"

subsection \<open>Lemmas\<close>

lemma create_order_exec_Inr:
  "exec_upsert fault (db s) (assign_uid gen od) = Inr tbl' \<Longrightarrow>
     create_order gen fault s od =
       (Inr (), s\<lparr>db := tbl', cache := (cache s)(OrderUID (assign_uid gen od) \<mapsto> assign_uid gen od)\<rparr>)"
  by (simp add: create_order_def save_order_exec_Inr)

lemma create_order_exec_Inl:
  "exec_upsert fault (db s) (assign_uid gen od) = Inl e \<Longrightarrow>
     \<exists>e'. create_order gen fault s od = (Inl e', s)"
  by (auto simp: create_order_def dest!: save_order_exec_Inl)

lemma create_order_Inr:
  "fst (create_order gen fault s od) = Inr () \<longleftrightarrow>
     (\<exists>tbl'. exec_upsert fault (db s) (assign_uid gen od) = Inr tbl' \<and>
        snd (create_order gen fault s od) =
          s\<lparr>db := tbl', cache := (cache s)(OrderUID (assign_uid gen od) \<mapsto> assign_uid gen od)\<rparr>)"
  by (cases "exec_upsert fault (db s) (assign_uid gen od)")
     (auto dest: create_order_exec_Inl simp: create_order_exec_Inr)

lemma create_order_Inl:
  "fst (create_order gen fault s od) = Inl e \<Longrightarrow> snd (create_order gen fault s od) = s"
  by (cases "exec_upsert fault (db s) (assign_uid gen od)")
     (auto dest: create_order_exec_Inl simp: create_order_exec_Inr)

lemma create_order_cases:
  "snd (create_order gen fault s od) = s \<or> fst (create_order gen fault s od) = Inr ()"
  by (cases "fst (create_order gen fault s od)") (auto dest: create_order_Inl)

lemma get_order_by_uid_hit:
  "cache s k = Some od \<Longrightarrow> get_order_by_uid fault s k = (Inr (model_to_response od), s)"
  by (simp add: get_order_by_uid_def)

lemma get_order_by_uid_db [simp]: "db (snd (get_order_by_uid fault s k)) = db s"
  by (auto simp: get_order_by_uid_def split: option.splits sum.splits)

lemma restore_db [simp]: "db (snd (restore_cache_from_db env s)) = db s"
  by (auto simp: restore_cache_from_db_def split: sum.splits)

lemmas svc_results = create_order_Inr create_order_Inl get_order_by_uid_hit

subsection \<open>Every call keeps the cache coherent\<close>

lemma coherent_update_intro:
  assumes "table_wf D"
    and "\<And>k od. C k = Some od \<Longrightarrow>
           OrderUID od = k \<and> length k \<le> 255 \<and> (\<exists>r. D k = Some r \<and> mirrors r od)"
  shows "coherent (s\<lparr>db := D, cache := C\<rparr>)"
  using assms unfolding coherent_def by simp

lemma coherent_cache_intro:
  assumes "table_wf (db s)"
    and "\<And>k od. C k = Some od \<Longrightarrow>
           OrderUID od = k \<and> length k \<le> 255 \<and> (\<exists>r. db s k = Some r \<and> mirrors r od)"
  shows "coherent (s\<lparr>cache := C\<rparr>)"
  using assms unfolding coherent_def by simp

lemma coherent_entry:
  "coherent s \<Longrightarrow> cache s k = Some od \<Longrightarrow>
     OrderUID od = k \<and> length k \<le> 255 \<and> (\<exists>r. db s k = Some r \<and> mirrors r od)"
  unfolding coherent_def by blast

lemma coherent_table_wf: "coherent s \<Longrightarrow> table_wf (db s)"
  unfolding coherent_def by blast

lemma create_order_coherent:
  assumes coh: "coherent s" and fits: "length (OrderUID (assign_uid gen od)) \<le> 255"
  shows "coherent (snd (create_order gen fault s od))"
proof (cases "exec_upsert fault (db s) (assign_uid gen od)")
  case (Inl e)
  then obtain e' where "create_order gen fault s od = (Inl e', s)"
    by (blast dest: create_order_exec_Inl)
  then show ?thesis using coh by simp
next
  case (Inr tbl')
  let ?od = "assign_uid gen od"
  let ?k = "OrderUID ?od"
  have s': "snd (create_order gen fault s od) = s\<lparr>db := tbl', cache := (cache s)(?k \<mapsto> ?od)\<rparr>"
    using create_order_exec_Inr[OF Inr] by simp
  have wf: "table_wf (db s)" by (rule coherent_table_wf[OF coh])
  have key: "c_order_uid (order_to_row ?od) = ?k"
    using fits by (simp add: order_to_row_def)
  have wf': "table_wf tbl'" by (rule exec_upsert_table_wf[OF wf Inr])
  have new: "\<exists>r. tbl' ?k = Some r \<and> mirrors r ?od"
    using exec_upsert_mirrors[OF wf Inr] unfolding key .
  have tbl'_eq: "tbl' = (db s)(?k \<mapsto> upsert_row (db s ?k) (order_to_row ?od))"
    using exec_upsert_table[OF Inr] unfolding key .
  have other: "tbl' k = db s k" if "k \<noteq> ?k" for k
    using that unfolding tbl'_eq by (rule fun_upd_other)
  have entry: "OrderUID od' = k \<and> length k \<le> 255 \<and> (\<exists>r. tbl' k = Some r \<and> mirrors r od')"
    if c: "((cache s)(?k \<mapsto> ?od)) k = Some od'" for k od'
  proof (cases "k = ?k")
    case True
    with c have "od' = ?od" by simp
    with True new fits show ?thesis by simp
  next
    case False
    with c have "cache s k = Some od'" by simp
    from coherent_entry[OF coh this] other[OF False] show ?thesis by simp
  qed
  show ?thesis
    unfolding s' by (rule coherent_update_intro[OF wf' entry])
qed

text \<open>A row of a well-formed table, cached under its key, is a coherent entry.\<close>

lemma row_entry_coherent:
  "table_wf tbl \<Longrightarrow> tbl k = Some r \<Longrightarrow>
     OrderUID (row_to_order r) = k \<and> length k \<le> 255 \<and> (\<exists>r'. tbl k = Some r' \<and> mirrors r' (row_to_order r))"
proof -
  assume wf: "table_wf tbl" and r: "tbl k = Some r"
  from table_wf_row[OF wf r] have k: "c_order_uid r = k" and fits: "row_fits r" by simp_all
  from fits have "length (c_order_uid r) \<le> 255" by (simp add: row_fits_def)
  with k r mirrors_row_to_order[OF fits] show ?thesis by simp
qed

lemma get_order_by_uid_coherent:
  assumes coh: "coherent s"
  shows "coherent (snd (get_order_by_uid fault s k))"
proof (cases "cache s k")
  case (Some od)
  then show ?thesis using coh by (simp add: get_order_by_uid_def)
next
  case None
  show ?thesis
  proof (cases "repo_get_order_by_uid fault (db s) k")
    case (Inl e)
    then show ?thesis using coh None by (simp add: get_order_by_uid_def)
  next
    case (Inr od)
    then obtain r where r: "db s k = Some r" and od: "od = row_to_order r"
      unfolding repo_get_Inr_iff by blast
    have wf: "table_wf (db s)" by (rule coherent_table_wf[OF coh])
    have s': "snd (get_order_by_uid fault s k) = s\<lparr>cache := (cache s)(k \<mapsto> od)\<rparr>"
      using None Inr by (simp add: get_order_by_uid_def)
    have entry: "OrderUID od' = k' \<and> length k' \<le> 255 \<and> (\<exists>r. db s k' = Some r \<and> mirrors r od')"
      if c: "((cache s)(k \<mapsto> od)) k' = Some od'" for k' od'
    proof (cases "k' = k")
      case True
      with c od have "od' = row_to_order r" by simp
      with True row_entry_coherent[OF wf r] show ?thesis by simp
    next
      case False
      with c have "cache s k' = Some od'" by simp
      then show ?thesis by (rule coherent_entry[OF coh])
    qed
    show ?thesis
      unfolding s' by (rule coherent_cache_intro[OF wf entry])
  qed
qed

lemma restore_coherent:
  assumes coh: "coherent s"
  shows "coherent (snd (restore_cache_from_db env s))"
proof (cases "get_all_orders env (db s)")
  case (Inl e)
  then have "snd (restore_cache_from_db env s) = s" by (simp add: restore_cache_from_db_def)
  with coh show ?thesis by simp
next
  case (Inr os)
  have wf: "table_wf (db s)" by (rule coherent_table_wf[OF coh])
  have s': "snd (restore_cache_from_db env s) = s\<lparr>cache := upd_all OrderUID os (cache s)\<rparr>"
    using Inr by (simp add: restore_cache_from_db_def)
  have os: "os = fetch_orders (fetch_fault env) (db s) (rows env)"
    using Inr by (simp add: get_all_orders_def split: option.splits)
  have entry: "OrderUID od = k \<and> length k \<le> 255 \<and> (\<exists>r. db s k = Some r \<and> mirrors r od)"
    if upd: "upd_all OrderUID os (cache s) k = Some od" for k od
  proof -
    from upd_all_cases[OF upd]
    consider (new) "od \<in> set os" "OrderUID od = k" | (old) "cache s k = Some od" by blast
    then show ?thesis
    proof cases
      case new
      then obtain r where r: "db s k = Some r" and od: "od = row_to_order r"
        using fetch_orders_rows[OF wf] os by blast
      from row_entry_coherent[OF wf r] show ?thesis unfolding od .
    next
      case old
      then show ?thesis by (rule coherent_entry[OF coh])
    qed
  qed
  show ?thesis
    unfolding s' by (rule coherent_cache_intro[OF wf entry])
qed

lemma svc_step_coherent: "coherent s \<Longrightarrow> op_fits op \<Longrightarrow> coherent (svc_step op s)"
  by (cases op) (simp_all add: create_order_coherent get_order_by_uid_coherent restore_coherent)

lemma new_order_service_coherent: "table_wf tbl \<Longrightarrow> coherent (new_order_service env tbl)"
  unfolding new_order_service_def by (rule restore_coherent) (simp add: coherent_def)



subsection \<open>Runs of calls\<close>

lemma svc_run_Nil [simp]: "svc_run [] s = s"
  by (simp add: svc_run_def)

lemma svc_run_Cons [simp]: "svc_run (op # ops) s = svc_run ops (svc_step op s)"
  by (simp add: svc_run_def)

lemma create_order_caches:
  "create_order gen fault s od = (Inr (), s') \<Longrightarrow>
     cache s' (OrderUID (assign_uid gen od)) = Some (assign_uid gen od)"
  using create_order_Inr[of gen fault s od] by auto

lemma create_order_succeeds:
  "create_order gen fault s od = (Inr (), s') \<Longrightarrow>
     \<exists>tbl'. exec_upsert fault (db s) (assign_uid gen od) = Inr tbl' \<and> db s' = tbl'"
  using create_order_Inr[of gen fault s od] by auto

lemma dom_cache_step: "dom (cache s) \<subseteq> dom (cache (svc_step op s))"
proof (cases op)
  case (OpCreate gen fault od)
  then show ?thesis
    using create_order_cases[of gen fault s od] create_order_Inr[of gen fault s od] by auto
next
  case (OpGet fault k)
  then show ?thesis
    by (auto simp: get_order_by_uid_def split: option.splits sum.splits)
next
  case (OpRestore env)
  then show ?thesis
    by (auto simp: restore_cache_from_db_def dom_upd_all split: sum.splits)
qed

lemma svc_run_coherent: "coherent s \<Longrightarrow> list_all op_fits ops \<Longrightarrow> coherent (svc_run ops s)"
  by (induction ops arbitrary: s) (simp_all add: svc_step_coherent)

lemma new_order_service_hit:
  assumes wf: "table_wf tbl" and scan: "complete_scan env tbl" and r: "tbl k = Some r"
  shows "cache (new_order_service env tbl) k = Some (row_to_order r)"
proof -
  let ?os = "fetch_orders (fetch_fault env) tbl (rows env)"
  have qf: "query_fault env = None" and ff: "fetch_fault env k = None" and rk: "Inr k \<in> set (rows env)"
    using scan r by (auto simp: complete_scan_def)
  have c: "cache (new_order_service env tbl) = upd_all OrderUID ?os Map.empty"
    using qf by (simp add: new_order_service_def restore_cache_from_db_def get_all_orders_def)
  have "row_to_order r \<in> set ?os"
    by (rule fetch_orders_complete[where tbl = tbl and k = k and ff = "fetch_fault env", OF r rk ff])
  moreover have "OrderUID (row_to_order r) = k" using table_wf_row[OF wf r] by simp
  ultimately have "k \<in> OrderUID ` set ?os" by force
  from upd_all_in[OF this] obtain x where x: "x \<in> set ?os" "OrderUID x = k"
    "upd_all OrderUID ?os Map.empty k = Some x" by blast
  from fetch_orders_rows[OF wf x(1)] x(2) r have "x = row_to_order r" by auto
  with x(3) c show ?thesis by simp
qed

lemma create_order_table_wf:
  "table_wf (db s) \<Longrightarrow> create_order gen fault s od = (Inr (), s') \<Longrightarrow> table_wf (db s')"
  using create_order_succeeds[of gen fault s od s'] exec_upsert_table_wf by blast

subsection \<open>Properties of the service\<close>

text \<open>
  What the restore loop writes, as one map: the scan of every stored row whose key the
  enumeration delivered and fetched without fault, under that key.
\<close>

lemma upd_all_fetch_orders:
  "table_wf tbl \<Longrightarrow>
     upd_all OrderUID (fetch_orders ff tbl rs) m =
       m ++ (\<lambda>k. if Inr k \<in> set rs \<and> ff k = None then map_option row_to_order (tbl k) else None)"
proof (induction ff tbl rs arbitrary: m rule: fetch_orders.induct)
  case (1 ff tbl)
  then show ?case by simp
next
  case (2 ff tbl e rs)
  then show ?case by simp
next
  case (3 ff tbl k rs)
  let ?F = "\<lambda>rs k'. if Inr k' \<in> set rs \<and> ff k' = None then map_option row_to_order (tbl k') else None"
  show ?case
  proof (cases "repo_get_order_by_uid (ff k) tbl k")
    case (Inl e)
    then have no: "ff k \<noteq> None \<or> tbl k = None"
      by (auto simp: repo_get_order_by_uid_def select_row_def split: option.splits)
    have "?F (Inr k # rs) = ?F rs"
    proof
      fix x show "?F (Inr k # rs) x = ?F rs x" using no by (cases "x = k") auto
    qed
    with Inl "3.IH"(1)[OF Inl "3.prems", of m] show ?thesis by simp
  next
    case (Inr od)
    then obtain r where r: "ff k = None" "tbl k = Some r" "od = row_to_order r"
      by (auto simp: repo_get_Inr_iff)
    have key: "OrderUID od = k" using table_wf_row[OF "3.prems" r(2)] r(3) by simp
    have "m(k \<mapsto> od) ++ ?F rs = m ++ ?F (Inr k # rs)"
    proof
      fix x show "(m(k \<mapsto> od) ++ ?F rs) x = (m ++ ?F (Inr k # rs)) x"
        using r by (cases "x = k") (auto simp: map_add_def split: option.splits)
    qed
    have "upd_all OrderUID (fetch_orders ff tbl (Inr k # rs)) m =
        upd_all OrderUID (fetch_orders ff tbl rs) (m(k \<mapsto> od))"
      using Inr key by simp
    also have "\<dots> = m(k \<mapsto> od) ++ ?F rs" by (rule "3.IH"(2)[OF Inr "3.prems"])
    finally show ?thesis using \<open>m(k \<mapsto> od) ++ ?F rs = m ++ ?F (Inr k # rs)\<close> by simp
  qed
qed

lemma ex_create:
  "create_order ''x'' None empty_svc (ex_order ''A1'' ''T1'') =
     (Inr (), \<lparr>db = [''A1'' \<mapsto> order_to_row (ex_order ''A1'' ''T1'')],
               cache = [''A1'' \<mapsto> ex_order ''A1'' ''T1'']\<rparr>)"
  by (simp add: create_order_def save_order_def exec_upsert_def Let_def assign_uid_def
      ex_order_def empty_svc_def columns_ok_def varchar_ok_def int4_ok_def upsert_row_def
      order_to_row_def varchar_def)

text \<open>
  C1 (write, then read).  After \<open>CreateOrder\<close> succeeds, \<open>GetOrderByUID\<close> for the
  order's identifier (the one it carried, or the UUID \<open>SaveOrder\<close> filled in) answers
  with the projection of exactly that order, from the cache, whatever the store does.
\<close>

theorem create_then_get:
  assumes "create_order gen fault s od = (Inr (), s')"
  shows "get_order_by_uid fault' s' (OrderUID (assign_uid gen od)) =
           (Inr (model_to_response (assign_uid gen od)), s')"
  using create_order_caches[OF assms] by (rule get_order_by_uid_hit)

theorem create_then_get_witness:
  "create_order ''x'' None empty_svc (ex_order ''A1'' ''T1'') =
     (Inr (), \<lparr>db = [''A1'' \<mapsto> order_to_row (ex_order ''A1'' ''T1'')],
               cache = [''A1'' \<mapsto> ex_order ''A1'' ''T1'']\<rparr>) \<and>
   get_order_by_uid (Some ConnError) \<lparr>db = [''A1'' \<mapsto> order_to_row (ex_order ''A1'' ''T1'')],
               cache = [''A1'' \<mapsto> ex_order ''A1'' ''T1'']\<rparr> ''A1'' =
     (Inr (model_to_response (ex_order ''A1'' ''T1'')),
      \<lparr>db = [''A1'' \<mapsto> order_to_row (ex_order ''A1'' ''T1'')],
       cache = [''A1'' \<mapsto> ex_order ''A1'' ''T1'']\<rparr>)"
  using create_then_get[OF ex_create, of "Some ConnError"] ex_create
  by (simp add: assign_uid_def ex_order_def)

text \<open>
  C2 (upsert, last write wins).  Two successful \<open>CreateOrder\<close> calls for the same
  identifier leave only the second order visible: \<open>GetOrderByUID\<close> answers with the
  projection of the second order, with nothing of the first merged in, and the stored
  row carries the second order in every column the upsert overwrites.
\<close>
theorem upsert_last_write_wins:
  assumes wf: "table_wf (db s)"
    and c1: "create_order gen f1 s od1 = (Inr (), s1)"
    and c2: "create_order gen f2 s1 od2 = (Inr (), s2)"
    and same: "OrderUID (assign_uid gen od2) = OrderUID (assign_uid gen od1)"
    and fits: "length (OrderUID (assign_uid gen od1)) \<le> 255"
  shows "get_order_by_uid f s2 (OrderUID (assign_uid gen od1)) =
           (Inr (model_to_response (assign_uid gen od2)), s2) \<and>
         (\<exists>r. db s2 (OrderUID (assign_uid gen od1)) = Some r \<and> mirrors r (assign_uid gen od2))"
proof -
  let ?k = "OrderUID (assign_uid gen od1)"
  obtain t1 where e1: "exec_upsert f1 (db s) (assign_uid gen od1) = Inr t1" and d1: "db s1 = t1"
    using create_order_succeeds[OF c1] by blast
  obtain t2 where e2: "exec_upsert f2 (db s1) (assign_uid gen od2) = Inr t2" and d2: "db s2 = t2"
    using create_order_succeeds[OF c2] by blast
  have wf1: "table_wf (db s1)" using exec_upsert_table_wf[OF wf e1] d1 by simp
  have key: "c_order_uid (order_to_row (assign_uid gen od2)) = ?k"
    using fits same by (simp add: order_to_row_def)
  have "cache s2 ?k = Some (assign_uid gen od2)"
    using create_order_caches[OF c2] same by simp
  moreover have "\<exists>r. db s2 ?k = Some r \<and> mirrors r (assign_uid gen od2)"
    using exec_upsert_mirrors[OF wf1 e2] key d2 by simp
  ultimately show ?thesis by (simp add: get_order_by_uid_hit)
qed

lemma ex_create2:
  "create_order ''x'' None \<lparr>db = [''A1'' \<mapsto> order_to_row (ex_order ''A1'' ''T1'')],
               cache = [''A1'' \<mapsto> ex_order ''A1'' ''T1'']\<rparr> (ex_order ''A1'' ''T2'') =
     (Inr (), \<lparr>db = [''A1'' \<mapsto> order_to_row (ex_order ''A1'' ''T2'')],
               cache = [''A1'' \<mapsto> ex_order ''A1'' ''T2'']\<rparr>)"
  by (simp add: create_order_def save_order_def exec_upsert_def Let_def assign_uid_def
      ex_order_def columns_ok_def varchar_ok_def int4_ok_def upsert_row_def
      order_to_row_def varchar_def)

theorem upsert_last_write_wins_witness:
  "table_wf (db empty_svc) \<and>
   get_order_by_uid None \<lparr>db = [''A1'' \<mapsto> order_to_row (ex_order ''A1'' ''T2'')],
               cache = [''A1'' \<mapsto> ex_order ''A1'' ''T2'']\<rparr> ''A1'' =
     (Inr (model_to_response (ex_order ''A1'' ''T2'')), \<lparr>db = [''A1'' \<mapsto> order_to_row (ex_order ''A1'' ''T2'')],
               cache = [''A1'' \<mapsto> ex_order ''A1'' ''T2'']\<rparr>)"
proof -
  have wf: "table_wf (db empty_svc)" by (simp add: empty_svc_def table_wf_def)
  show ?thesis
    using upsert_last_write_wins[OF wf ex_create ex_create2, of None]
    by (simp add: wf assign_uid_def ex_order_def)
qed

text \<open>
  C3 (failed write, scenario D).  When \<open>CreateOrder\<close> returns an error, neither the store
  nor the cache has changed, so an identifier that was in neither before is still not
  found by \<open>GetOrderByUID\<close>.
\<close>
theorem create_failure_not_visible:
  assumes err: "create_order gen fault s od = (Inl e, s')"
    and nc: "cache s k = None" and nd: "db s k = None"
  shows "s' = s \<and> (\<exists>e'. get_order_by_uid fault' s' k = (Inl e', s'))"
proof -
  have "s' = s" using create_order_Inl[of gen fault s od e] err by simp
  moreover have "\<exists>e'. get_order_by_uid fault' s k = (Inl e', s)"
    using nc nd by (simp add: get_order_by_uid_def repo_get_not_found)
  ultimately show ?thesis by simp
qed

theorem create_failure_not_visible_witness:
  "create_order ''x'' (Some ConnError) empty_svc (ex_order ''X'' ''T1'') = (Inl (ErrSaveOrder ConnError), empty_svc) \<and>
   get_order_by_uid None empty_svc ''X'' = (Inl (ErrDb ErrNoRows), empty_svc)"
proof -
  have c: "create_order ''x'' (Some ConnError) empty_svc (ex_order ''X'' ''T1'') = (Inl (ErrSaveOrder ConnError), empty_svc)"
    by (simp add: create_order_def save_order_def exec_upsert_def Let_def assign_uid_def
        ex_order_def empty_svc_def int4_ok_def)
  have "cache empty_svc ''X'' = None" "db empty_svc ''X'' = None" by (simp_all add: empty_svc_def)
  from create_failure_not_visible[OF c this, of None] c show ?thesis
    by (auto simp: get_order_by_uid_def repo_get_order_by_uid_def select_row_def empty_svc_def)
qed

text \<open>
  C4 (coherence invariant).  From a service constructed over a well-formed store, every
  sequence of \<open>CreateOrder\<close>, \<open>GetOrderByUID\<close> and \<open>RestoreCacheFromDB\<close> calls whose
  created identifiers fit the \<open>order_uid\<close> column keeps the cache coherent: each cached
  order sits under its own identifier and the store holds a row under that identifier
  with the same contents in every column the upsert writes (the cache is never ahead of
  the store: write-through, never write-back).
\<close>
theorem coherent_reachable:
  assumes "table_wf tbl" and "list_all op_fits ops"
  shows "coherent (svc_run ops (new_order_service env tbl))"
  using new_order_service_coherent[OF assms(1)] assms(2) by (rule svc_run_coherent)

theorem coherent_reachable_witness:
  "table_wf Map.empty \<and> list_all op_fits [OpCreate ''x'' None (ex_order ''A1'' ''T1''), OpGet None ''A1''] \<and>
   coherent (svc_run [OpCreate ''x'' None (ex_order ''A1'' ''T1''), OpGet None ''A1'']
     (new_order_service \<lparr>query_fault = None, rows = [], fetch_fault = \<lambda>_. None\<rparr> Map.empty))"
proof -
  have h: "table_wf Map.empty" "list_all op_fits [OpCreate ''x'' None (ex_order ''A1'' ''T1''), OpGet None ''A1'']"
    by (simp_all add: table_wf_def assign_uid_def ex_order_def)
  show ?thesis using h coherent_reachable[OF h] by simp
qed

text \<open>
  C5 (what the restore loads; restoring twice is restoring once).  Over a well-formed
  store whose key query succeeds, \<open>RestoreCacheFromDB\<close> keeps every cache entry and
  adds, under its own key, the scan of every stored row the enumeration delivered and
  fetched without fault, and nothing else; running it a second time against the same
  store and enumeration changes neither result nor state.
\<close>
theorem restore_idempotent:
  assumes wf: "table_wf (db s)" and q: "query_fault env = None"
  shows "restore_cache_from_db env s =
           (Inr (), s\<lparr>cache := cache s ++ (\<lambda>k. if Inr k \<in> set (rows env) \<and> fetch_fault env k = None
                                              then map_option row_to_order (db s k) else None)\<rparr>) \<and>
         restore_cache_from_db env (snd (restore_cache_from_db env s)) = restore_cache_from_db env s"
proof -
  have r: "restore_cache_from_db env s =
      (Inr (), s\<lparr>cache := upd_all OrderUID (fetch_orders (fetch_fault env) (db s) (rows env)) (cache s)\<rparr>)"
    by (simp add: restore_cache_from_db_def get_all_orders_def q)
  have "restore_cache_from_db env (snd (restore_cache_from_db env s)) = restore_cache_from_db env s"
    unfolding r by (simp add: restore_cache_from_db_def get_all_orders_def q upd_all_idem)
  with r upd_all_fetch_orders[OF wf] show ?thesis by simp
qed

theorem restore_idempotent_witness:
  "table_wf (db \<lparr>db = [''A1'' \<mapsto> order_to_row (ex_order ''A1'' ''T1'')], cache = Map.empty\<rparr>) \<and>
   query_fault \<lparr>query_fault = None, rows = [Inr ''A1'', Inr ''B2''], fetch_fault = \<lambda>_. None\<rparr> = None \<and>
   cache (snd (restore_cache_from_db \<lparr>query_fault = None, rows = [Inr ''A1'', Inr ''B2''], fetch_fault = \<lambda>_. None\<rparr>
     \<lparr>db = [''A1'' \<mapsto> order_to_row (ex_order ''A1'' ''T1'')], cache = Map.empty\<rparr>)) =
     [''A1'' \<mapsto> row_to_order (order_to_row (ex_order ''A1'' ''T1''))]"
proof -
  let ?s = "\<lparr>db = [''A1'' \<mapsto> order_to_row (ex_order ''A1'' ''T1'')], cache = Map.empty\<rparr>"
  let ?env = "\<lparr>query_fault = None, rows = [Inr ''A1'', Inr ''B2''], fetch_fault = \<lambda>_. None\<rparr>"
  have wf: "table_wf (db ?s)"
    by (simp add: table_wf_def row_fits_def order_to_row_def ex_order_def varchar_def
        int4_ok_def pg_timestamptz_def)
  have q: "query_fault ?env = None" by simp
  note e = conjunct1[OF restore_idempotent[OF wf q]]
  have "cache (snd (restore_cache_from_db ?env ?s)) =
      [''A1'' \<mapsto> row_to_order (order_to_row (ex_order ''A1'' ''T1''))]"
    unfolding e by (auto simp: fun_eq_iff map_add_def)
  with wf q show ?thesis by simp
qed

text \<open>
  C6 (cold start, scenario C).  After \<open>NewOrderService\<close> over a well-formed store whose
  enumeration delivers every key without fault, every stored order is a cache hit:
  \<open>GetOrderByUID\<close> returns the stored order's projection whatever the store would do
  now (any fault), and changes no state.
\<close>
theorem restore_complete_hits:
  assumes wf: "table_wf tbl" and scan: "complete_scan env tbl" and r: "tbl k = Some r"
  shows "get_order_by_uid fault (new_order_service env tbl) k =
           (Inr (model_to_response (row_to_order r)), new_order_service env tbl)"
  using new_order_service_hit[OF wf scan r] by (rule get_order_by_uid_hit)

theorem restore_complete_hits_witness:
  "table_wf [''A1'' \<mapsto> order_to_row (ex_order ''A1'' ''T1'')] \<and>
   complete_scan \<lparr>query_fault = None, rows = [Inr ''A1''], fetch_fault = \<lambda>_. None\<rparr>
     [''A1'' \<mapsto> order_to_row (ex_order ''A1'' ''T1'')] \<and>
   get_order_by_uid (Some ConnError)
     (new_order_service \<lparr>query_fault = None, rows = [Inr ''A1''], fetch_fault = \<lambda>_. None\<rparr>
        [''A1'' \<mapsto> order_to_row (ex_order ''A1'' ''T1'')]) ''A1'' =
     (Inr (model_to_response (row_to_order (order_to_row (ex_order ''A1'' ''T1'')))),
      new_order_service \<lparr>query_fault = None, rows = [Inr ''A1''], fetch_fault = \<lambda>_. None\<rparr>
        [''A1'' \<mapsto> order_to_row (ex_order ''A1'' ''T1'')])"
proof -
  have wf: "table_wf [''A1'' \<mapsto> order_to_row (ex_order ''A1'' ''T1'')]"
    by (simp add: table_wf_def row_fits_def order_to_row_def ex_order_def varchar_def
        int4_ok_def pg_timestamptz_def)
  have sc: "complete_scan \<lparr>query_fault = None, rows = [Inr ''A1''], fetch_fault = \<lambda>_. None\<rparr>
     [''A1'' \<mapsto> order_to_row (ex_order ''A1'' ''T1'')]"
    by (simp add: complete_scan_def)
  show ?thesis
    using wf sc restore_complete_hits[OF wf sc, of "''A1''" "order_to_row (ex_order ''A1'' ''T1'')" "Some ConnError"]
    by simp
qed

text \<open>
  C7 (read-through).  A cache miss on an identifier the store holds returns the stored
  order's projection and fills the cache, after which the same lookup is answered from
  the cache even if the store fails.
\<close>
theorem read_through_then_hit:
  assumes miss: "cache s k = None" and row: "db s k = Some r"
    and get: "get_order_by_uid None s k = (res, s')"
  shows "res = Inr (model_to_response (row_to_order r)) \<and> cache s' k = Some (row_to_order r) \<and>
         get_order_by_uid fault s' k = (res, s')"
proof -
  have "get_order_by_uid None s k =
          (Inr (model_to_response (row_to_order r)), s\<lparr>cache := (cache s)(k \<mapsto> row_to_order r)\<rparr>)"
    using miss row by (simp add: get_order_by_uid_def repo_get_order_by_uid_def select_row_def)
  with get have res: "res = Inr (model_to_response (row_to_order r))"
    and s': "s' = s\<lparr>cache := (cache s)(k \<mapsto> row_to_order r)\<rparr>" by simp_all
  then have "cache s' k = Some (row_to_order r)" by simp
  with res show ?thesis by (simp add: get_order_by_uid_hit)
qed

theorem read_through_then_hit_witness:
  "get_order_by_uid (Some ConnError)
      \<lparr>db = [''A1'' \<mapsto> order_to_row (ex_order ''A1'' ''T1'')],
       cache = [''A1'' \<mapsto> row_to_order (order_to_row (ex_order ''A1'' ''T1''))]\<rparr> ''A1'' =
   (Inr (model_to_response (row_to_order (order_to_row (ex_order ''A1'' ''T1'')))),
      \<lparr>db = [''A1'' \<mapsto> order_to_row (ex_order ''A1'' ''T1'')],
       cache = [''A1'' \<mapsto> row_to_order (order_to_row (ex_order ''A1'' ''T1''))]\<rparr>)"
proof -
  let ?s = "\<lparr>db = [''A1'' \<mapsto> order_to_row (ex_order ''A1'' ''T1'')], cache = Map.empty\<rparr> :: svc"
  have m: "cache ?s ''A1'' = None" and r: "db ?s ''A1'' = Some (order_to_row (ex_order ''A1'' ''T1''))"
    by simp_all
  have g: "get_order_by_uid None ?s ''A1'' =
     (Inr (model_to_response (row_to_order (order_to_row (ex_order ''A1'' ''T1'')))),
      \<lparr>db = [''A1'' \<mapsto> order_to_row (ex_order ''A1'' ''T1'')],
       cache = [''A1'' \<mapsto> row_to_order (order_to_row (ex_order ''A1'' ''T1''))]\<rparr>)"
    by (simp add: get_order_by_uid_def repo_get_order_by_uid_def select_row_def)
  show ?thesis using read_through_then_hit[OF m r g, of "Some ConnError"] by simp
qed

text \<open>
  C8 (no eviction).  No sequence of service calls removes an identifier from the cache:
  the set of cached identifiers only grows.
\<close>
theorem cache_never_shrinks: "dom (cache s) \<subseteq> dom (cache (svc_run ops s))"
proof (induction ops arbitrary: s)
  case Nil
  then show ?case by simp
next
  case (Cons op ops)
  from dom_cache_step[of s op] Cons.IH[of "svc_step op s"] show ?case by simp
qed

text \<open>
  The error of \<open>CreateOrder\<close>, decided in this order by the connection (a unique
  violation becomes the "already exists" error, any other failure the generic save
  error), by the driver's 32-bit check of \<open>sm_id\<close> and by the \<open>VARCHAR\<close> limits.
\<close>

lemma create_order_result:
  "fst (create_order gen fault s od) =
     (case fault of
        Some (PgError c) \<Rightarrow>
          if c = ''23505'' then Inl (ErrOrderExists (OrderUID (assign_uid gen od)))
          else Inl (ErrSaveOrder (PgError c))
      | Some e \<Rightarrow> Inl (ErrSaveOrder e)
      | None \<Rightarrow>
          if \<not> int4_ok (SmID od) then Inl (ErrSaveOrder DriverError)
          else if columns_ok (assign_uid gen od) then Inr () else Inl (ErrSaveOrder (PgError ''22001'')))"
proof -
  have sm: "SmID (assign_uid gen od) = SmID od" by (simp add: assign_uid_def)
  show ?thesis
    by (cases fault; cases "the fault")
       (simp_all add: create_order_def save_order_def exec_upsert_def Let_def sm)
qed

end
