(* ===== verification/Findings.thy ===== *)
theory Findings
  imports Service
begin

text \<open>
  Where the cache and the store of the service part ways.  The spec promises a cache
  that mirrors the store and an upsert that overwrites every field; the code's upsert
  statement overwrites six columns only, the column types alter what they store, and
  the response projection forgets six attributes.  Each theorem here states what the
  code does instead, for all inputs that reach the situation.
\<close>

definition kept_columns :: "order_row \<Rightarrow> order_row \<Rightarrow> order_row" where
  "kept_columns old new =
     new\<lparr>c_order_uid := c_order_uid old, c_locale := c_locale old, c_internal_signature := c_internal_signature old,
         c_customer_id := c_customer_id old, c_delivery_service := c_delivery_service old,
         c_shardkey := c_shardkey old, c_sm_id := c_sm_id old, c_oof_shard := c_oof_shard old\<rparr>"

text \<open>An order the store keeps exactly as it was written.\<close>

definition db_exact :: "order \<Rightarrow> bool" where
  "db_exact od \<longleftrightarrow>
     length (OrderUID od) \<le> 255 \<and> length (TrackNumber od) \<le> 255 \<and>
     length (Entry od) \<le> 50 \<and> length (Locale od) \<le> 10 \<and>
     length (InternalSignature od) \<le> 255 \<and> length (CustomerID od) \<le> 255 \<and>
     length (DeliveryService od) \<le> 100 \<and> length (Shardkey od) \<le> 50 \<and>
     DateCreated od mod 1000 = 0 \<and> length (OofShard od) \<le> 50"

text \<open>An identifier exactly as long as the \<open>order_uid\<close> column.\<close>

definition long_uid :: uid where
  "long_uid = replicate 255 (CHR ''a'')"

subsection \<open>Lemmas\<close>

lemma upsert_row_Some: "upsert_row (Some old) new = kept_columns old new"
  by (cases old, cases new) (simp add: upsert_row_def kept_columns_def)

lemma assign_uid_nonempty [simp]: "OrderUID od \<noteq> [] \<Longrightarrow> assign_uid gen od = od"
  by (simp add: assign_uid_def)

lemma create_fresh_row:
  assumes c: "create_order gen f s od = (Inr (), s')" and k: "OrderUID od = k" "k \<noteq> []"
    and fits: "length k \<le> 255" and fresh: "db s k = None"
  shows "db s' k = Some (order_to_row od)"
proof -
  have key: "c_order_uid (order_to_row od) = k" using k fits by (simp add: order_to_row_def)
  from c k obtain t where e: "exec_upsert f (db s) od = Inr t" and d: "db s' = t"
    using create_order_Inr[of gen f s od] by auto
  from exec_upsert_table[OF e] key fresh d show ?thesis by (simp add: upsert_row_def)
qed

lemma create_existing_row:
  assumes c: "create_order gen f s od = (Inr (), s')" and k: "OrderUID od = k" "k \<noteq> []"
    and fits: "length k \<le> 255" and old: "db s k = Some r0"
  shows "db s' k = Some (kept_columns r0 (order_to_row od))"
proof -
  have key: "c_order_uid (order_to_row od) = k" using k fits by (simp add: order_to_row_def)
  from c k obtain t where e: "exec_upsert f (db s) od = Inr t" and d: "db s' = t"
    using create_order_Inr[of gen f s od] by auto
  from exec_upsert_table[OF e] key old d show ?thesis by (simp add: upsert_row_Some)
qed

subsection \<open>Properties\<close>

text \<open>
  C9 (the upsert keeps old columns; a restart shows them).  Two successful
  \<open>CreateOrder\<close> calls for the same new identifier leave the cache answering with the
  second order, while the stored row keeps the first order's locale, internal
  signature, customer id, delivery service, shard key, sm_id and oof_shard.  A service
  constructed afresh over that store therefore answers with the first order's
  \<open>oof_shard\<close> and with the creation time cut to microseconds: the same lookup gives
  different responses before and after a restart.
\<close>

theorem restart_serves_kept_columns:
  assumes wf: "table_wf (db s)" and fresh: "db s k = None"
    and k1: "OrderUID od1 = k" and k2: "OrderUID od2 = k" and ne: "k \<noteq> []"
    and fits: "length k \<le> 255"
    and c1: "create_order gen f1 s od1 = (Inr (), s1)"
    and c2: "create_order gen f2 s1 od2 = (Inr (), s2)"
    and scan: "complete_scan env (db s2)"
  shows "fst (get_order_by_uid f s2 k) = Inr (model_to_response od2) \<and>
         fst (get_order_by_uid f (new_order_service env (db s2)) k) =
           Inr (model_to_response (row_to_order (kept_columns (order_to_row od1) (order_to_row od2))))"
proof -
  have r1: "db s1 k = Some (order_to_row od1)"
    by (rule create_fresh_row[OF c1 k1 ne fits fresh])
  have r2: "db s2 k = Some (kept_columns (order_to_row od1) (order_to_row od2))"
    by (rule create_existing_row[OF c2 k2 ne fits r1])
  have wf2: "table_wf (db s2)"
    by (rule create_order_table_wf[OF create_order_table_wf[OF wf c1] c2])
  have "cache s2 k = Some od2"
    using create_order_caches[OF c2] k2 ne by simp
  then have "fst (get_order_by_uid f s2 k) = Inr (model_to_response od2)"
    by (simp add: get_order_by_uid_hit)
  moreover have "cache (new_order_service env (db s2)) k =
      Some (row_to_order (kept_columns (order_to_row od1) (order_to_row od2)))"
    by (rule new_order_service_hit[OF wf2 scan r2])
  ultimately show ?thesis by (simp add: get_order_by_uid_hit)
qed

lemma ex_create_second:
  "create_order ''x'' None \<lparr>db = [''A1'' \<mapsto> order_to_row (ex_order ''A1'' ''T1'')],
               cache = [''A1'' \<mapsto> ex_order ''A1'' ''T1'']\<rparr> ((ex_order ''A1'' ''T2'')\<lparr>OofShard := ''2''\<rparr>) =
     (Inr (), \<lparr>db = [''A1'' \<mapsto> kept_columns (order_to_row (ex_order ''A1'' ''T1''))
                                 (order_to_row ((ex_order ''A1'' ''T2'')\<lparr>OofShard := ''2''\<rparr>))],
               cache = [''A1'' \<mapsto> (ex_order ''A1'' ''T2'')\<lparr>OofShard := ''2''\<rparr>]\<rparr>)"
  by (simp add: create_order_def save_order_def exec_upsert_def Let_def assign_uid_def
      ex_order_def columns_ok_def varchar_ok_def int4_ok_def upsert_row_Some varchar_def)

theorem restart_serves_kept_columns_witness:
  "fst (get_order_by_uid None
     \<lparr>db = [''A1'' \<mapsto> kept_columns (order_to_row (ex_order ''A1'' ''T1''))
                                 (order_to_row ((ex_order ''A1'' ''T2'')\<lparr>OofShard := ''2''\<rparr>))],
      cache = [''A1'' \<mapsto> (ex_order ''A1'' ''T2'')\<lparr>OofShard := ''2''\<rparr>]\<rparr> ''A1'') =
     Inr (model_to_response ((ex_order ''A1'' ''T2'')\<lparr>OofShard := ''2''\<rparr>)) \<and>
   fst (get_order_by_uid None
     (new_order_service \<lparr>query_fault = None, rows = [Inr ''A1''], fetch_fault = \<lambda>_. None\<rparr>
        [''A1'' \<mapsto> kept_columns (order_to_row (ex_order ''A1'' ''T1''))
                                 (order_to_row ((ex_order ''A1'' ''T2'')\<lparr>OofShard := ''2''\<rparr>))]) ''A1'') =
     Inr (model_to_response (row_to_order (kept_columns (order_to_row (ex_order ''A1'' ''T1''))
            (order_to_row ((ex_order ''A1'' ''T2'')\<lparr>OofShard := ''2''\<rparr>))))) \<and>
   ROofShard (model_to_response ((ex_order ''A1'' ''T2'')\<lparr>OofShard := ''2''\<rparr>)) = ''2'' \<and>
   ROofShard (model_to_response (row_to_order (kept_columns (order_to_row (ex_order ''A1'' ''T1''))
            (order_to_row ((ex_order ''A1'' ''T2'')\<lparr>OofShard := ''2''\<rparr>))))) = ''1''"
proof -
  have wf: "table_wf (db empty_svc)" by (simp add: empty_svc_def table_wf_def)
  have fr: "db empty_svc ''A1'' = None" by (simp add: empty_svc_def)
  have k1: "OrderUID (ex_order ''A1'' ''T1'') = ''A1''"
    and k2: "OrderUID ((ex_order ''A1'' ''T2'')\<lparr>OofShard := ''2''\<rparr>) = ''A1''"
    by (simp_all add: ex_order_def)
  have sc: "complete_scan \<lparr>query_fault = None, rows = [Inr ''A1''], fetch_fault = \<lambda>_. None\<rparr>
     (db \<lparr>db = [''A1'' \<mapsto> kept_columns (order_to_row (ex_order ''A1'' ''T1''))
                                 (order_to_row ((ex_order ''A1'' ''T2'')\<lparr>OofShard := ''2''\<rparr>))],
      cache = [''A1'' \<mapsto> (ex_order ''A1'' ''T2'')\<lparr>OofShard := ''2''\<rparr>]\<rparr>)"
    by (simp add: complete_scan_def)
  from restart_serves_kept_columns[OF wf fr k1 k2 _ _ ex_create ex_create_second sc, of None]
  show ?thesis
    by (simp add: model_to_response_def row_to_order_def kept_columns_def order_to_row_def
        ex_order_def varchar_def)
qed

text \<open>
  C10 (store round trip).  Writing an order and reading it back gives the same order
  exactly when every bounded string fits its column and the creation time has no
  sub-microsecond part; otherwise the store holds a truncated identifier or string, or
  a coarser time, than the cache.
\<close>

theorem store_roundtrip_iff: "row_to_order (order_to_row od) = od \<longleftrightarrow> db_exact od"
  unfolding row_to_order_order_to_row db_exact_def
  by (cases od) (simp only: order.update_convs order.select_convs order.ext_inject varchar_fixed_iff
                  pg_timestamptz_fixed_iff simp_thms)

text \<open>
  C11 (identifiers cut by the column alias one row).  An identifier of 255 characters
  and the same identifier followed by a space are two keys of the cache but one key of
  the store: after creating an order under each, the cache still holds the first order
  under the shorter key while the row under that key carries the second order's track
  number, so the cache entry no longer mirrors the store.
\<close>

theorem truncated_uid_aliases_row:
  assumes wf: "table_wf (db s)" and len: "length k = 255"
    and k1: "OrderUID od1 = k" and k2: "OrderUID od2 = k @ '' ''"
    and c1: "create_order gen f1 s od1 = (Inr (), s1)"
    and c2: "create_order gen f2 s1 od2 = (Inr (), s2)"
  shows "cache s2 k = Some od1 \<and> cache s2 (k @ '' '') = Some od2 \<and> db s2 (k @ '' '') = None \<and>
         (\<exists>r. db s2 k = Some r \<and> c_track_number r = c_track_number (order_to_row od2))"
proof -
  have ne: "k \<noteq> []" using len by auto
  have ne2: "k @ '' '' \<noteq> k" by simp
  have cs1: "cache s1 k = Some od1" using create_order_caches[OF c1] k1 ne by simp
  obtain t where e: "exec_upsert f2 (db s1) od2 = Inr t" and d: "db s2 = t"
    using create_order_succeeds[OF c2] k2 by auto
  have key: "c_order_uid (order_to_row od2) = k"
    using k2 len by (simp add: order_to_row_def varchar_def)
  have t: "t = (db s1)(k \<mapsto> upsert_row (db s1 k) (order_to_row od2))"
    using exec_upsert_table[OF e] key by simp
  have "c_track_number (upsert_row (db s1 k) (order_to_row od2)) = c_track_number (order_to_row od2)"
    by (cases "db s1 k") (simp_all add: upsert_row_def)
  then have row: "\<exists>r. db s2 k = Some r \<and> c_track_number r = c_track_number (order_to_row od2)"
    using d t by simp
  have wf2: "table_wf (db s2)"
    by (rule create_order_table_wf[OF create_order_table_wf[OF wf c1] c2])
  have "db s2 (k @ '' '') = None"
  proof (rule ccontr)
    assume "db s2 (k @ '' '') \<noteq> None"
    then obtain r where "db s2 (k @ '' '') = Some r" by blast
    with wf2 have "length (k @ '' '') \<le> 255" by (auto dest: table_wf_row simp: row_fits_def)
    with len show False by simp
  qed
  moreover have "cache s2 (k @ '' '') = Some od2" using create_order_caches[OF c2] k2 by simp
  moreover have "cache s2 k = Some od1"
    using create_order_Inr[of gen f2 s1 od2] c2 k2 cs1 ne2 by auto
  ultimately show ?thesis using row by simp
qed

lemma ex_create_long:
  "create_order ''x'' None empty_svc (ex_order long_uid ''T1'') =
     (Inr (), \<lparr>db = [long_uid \<mapsto> order_to_row (ex_order long_uid ''T1'')],
               cache = [long_uid \<mapsto> ex_order long_uid ''T1'']\<rparr>)"
  by (simp add: create_order_def save_order_def exec_upsert_def Let_def assign_uid_def
      ex_order_def empty_svc_def columns_ok_def varchar_ok_def int4_ok_def upsert_row_def
      varchar_def long_uid_def)

lemma ex_create_long_space:
  "create_order ''x'' None \<lparr>db = [long_uid \<mapsto> order_to_row (ex_order long_uid ''T1'')],
               cache = [long_uid \<mapsto> ex_order long_uid ''T1'']\<rparr> (ex_order (long_uid @ '' '') ''T2'') =
     (Inr (), \<lparr>db = [long_uid \<mapsto> kept_columns (order_to_row (ex_order long_uid ''T1''))
                                   (order_to_row (ex_order (long_uid @ '' '') ''T2''))],
               cache = [long_uid \<mapsto> ex_order long_uid ''T1'',
                        long_uid @ '' '' \<mapsto> ex_order (long_uid @ '' '') ''T2'']\<rparr>)"
  by (simp add: create_order_def save_order_def exec_upsert_def Let_def assign_uid_def
      ex_order_def columns_ok_def varchar_ok_def int4_ok_def upsert_row_Some
      varchar_def long_uid_def)

theorem truncated_uid_aliases_row_witness:
  "cache \<lparr>db = [long_uid \<mapsto> kept_columns (order_to_row (ex_order long_uid ''T1''))
                                   (order_to_row (ex_order (long_uid @ '' '') ''T2''))],
          cache = [long_uid \<mapsto> ex_order long_uid ''T1'',
                   long_uid @ '' '' \<mapsto> ex_order (long_uid @ '' '') ''T2'']\<rparr> long_uid =
     Some (ex_order long_uid ''T1'') \<and>
   (\<exists>r. [long_uid \<mapsto> kept_columns (order_to_row (ex_order long_uid ''T1''))
                         (order_to_row (ex_order (long_uid @ '' '') ''T2''))] long_uid = Some r \<and>
        c_track_number r = ''T2'')"
proof -
  have wf: "table_wf (db empty_svc)" by (simp add: empty_svc_def table_wf_def)
  have len: "length long_uid = 255" by (simp add: long_uid_def)
  have k1: "OrderUID (ex_order long_uid ''T1'') = long_uid"
    and k2: "OrderUID (ex_order (long_uid @ '' '') ''T2'') = long_uid @ '' ''"
    by (simp_all add: ex_order_def)
  from truncated_uid_aliases_row[OF wf len k1 k2 ex_create_long ex_create_long_space]
  show ?thesis by (simp add: order_to_row_def ex_order_def varchar_def)
qed

text \<open>
  C12 (what a response reveals).  Two orders get the same response exactly when they
  agree on identifier, track number, entry, delivery, payment, items, creation time and
  oof_shard: the locale, internal signature, customer id, delivery service, shard key
  and sm_id never reach a caller, although the spec lists them as part of the
  projection.
\<close>

theorem response_determined_by_visible_part:
  "model_to_response od = model_to_response od' \<longleftrightarrow> visible_part od = visible_part od'"
  by (simp add: model_to_response_def visible_part_def items_to_response_inj
      delivery_eq_iff payment_eq_iff conj_ac)

end
