(* ===== verification/Consumer.thy ===== *)
theory Consumer
  imports Service
begin

text \<open>
  The Kafka consumer of kafka/consumer.go.  \<open>processMessage\<close> decodes the payload,
  drops it when decoding fails or the identifier is empty, and otherwise hands the
  order to \<open>CreateOrder\<close> under a 5 s deadline; every outcome is only logged.
  \<open>consumePartition\<close> runs one such loop per partition, forever, selecting between
  the message channel and the error channel.

  \<open>json.Unmarshal\<close> into \<open>model.Order\<close> is the library's decoder, an argument
  \<open>dec\<close> of the model (\<open>Inl\<close> an error text, \<open>Inr\<close> the decoded order).  The store
  fault a message's \<open>CreateOrder\<close> meets, the expired deadline included, travels with
  the message.  The loop that never ends is modelled on every finite prefix of the
  partition's event stream; its log is the list of outcomes.
\<close>

datatype msg_outcome =
    DecodeFailed string
  | MissingUID
  | CreateFailed uid repo_error
  | Processed uid
  | PartitionError

datatype 'raw pc_event = Message 'raw "db_error option" | ConsumerError

definition process_message ::
  "('raw \<Rightarrow> string + order) \<Rightarrow> uid \<Rightarrow> db_error option \<Rightarrow> svc \<Rightarrow> 'raw \<Rightarrow> msg_outcome \<times> svc" where
  "process_message dec gen fault s raw =
     (case dec raw of
        Inl err \<Rightarrow> (DecodeFailed err, s)
      | Inr od \<Rightarrow>
          if OrderUID od = [] then (MissingUID, s)
          else (case create_order gen fault s od of
                  (Inl e, s') \<Rightarrow> (CreateFailed (OrderUID od) e, s')
                | (Inr _, s') \<Rightarrow> (Processed (OrderUID od), s')))"

text \<open>The \<open>for { select ... }\<close> loop of \<open>consumePartition\<close>, on a finite prefix.\<close>

fun consume_partition ::
  "('raw \<Rightarrow> string + order) \<Rightarrow> uid \<Rightarrow> svc \<Rightarrow> 'raw pc_event list \<Rightarrow> msg_outcome list \<times> svc" where
  "consume_partition dec gen s [] = ([], s)"
| "consume_partition dec gen s (Message raw fault # evs) =
     (let (out, s') = process_message dec gen fault s raw;
          (log, s'') = consume_partition dec gen s' evs
      in (out # log, s''))"
| "consume_partition dec gen s (ConsumerError # evs) =
     (let (log, s') = consume_partition dec gen s evs in (PartitionError # log, s'))"

text \<open>
  \<open>consumePartition\<close> as a whole: when \<open>ConsumePartition\<close> fails the goroutine logs and
  returns, consuming nothing; otherwise it reads from \<open>OffsetNewest\<close>, so the events
  already in the partition when it starts (\<open>backlog\<close>) are never read.
\<close>

definition start_partition ::
  "('raw \<Rightarrow> string + order) \<Rightarrow> uid \<Rightarrow> svc \<Rightarrow> bool \<Rightarrow> 'raw pc_event list \<Rightarrow> 'raw pc_event list \<Rightarrow>
     msg_outcome list \<times> svc" where
  "start_partition dec gen s opened backlog evs =
     (if opened then consume_partition dec gen s evs else ([], s))"

text \<open>The service calls a prefix of the partition makes: one per valid message.\<close>

fun partition_ops :: "('raw \<Rightarrow> string + order) \<Rightarrow> uid \<Rightarrow> 'raw pc_event list \<Rightarrow> svc_op list" where
  "partition_ops dec gen [] = []"
| "partition_ops dec gen (ConsumerError # evs) = partition_ops dec gen evs"
| "partition_ops dec gen (Message raw fault # evs) =
     (case dec raw of
        Inl _ \<Rightarrow> partition_ops dec gen evs
      | Inr od \<Rightarrow>
          if OrderUID od = [] then partition_ops dec gen evs
          else OpCreate gen fault od # partition_ops dec gen evs)"

text \<open>A message the consumer drops before it reaches the service.\<close>

definition invalid_message :: "('raw \<Rightarrow> string + order) \<Rightarrow> 'raw \<Rightarrow> bool" where
  "invalid_message dec raw \<longleftrightarrow> (case dec raw of Inl _ \<Rightarrow> True | Inr od \<Rightarrow> OrderUID od = [])"

subsection \<open>Lemmas\<close>

lemma process_message_state:
  "snd (process_message dec gen fault s raw) =
     (case dec raw of
        Inl _ \<Rightarrow> s
      | Inr od \<Rightarrow> if OrderUID od = [] then s else svc_step (OpCreate gen fault od) s)"
  by (auto simp: process_message_def split: sum.splits prod.splits)

lemma consume_partition_state:
  "snd (consume_partition dec gen s evs) = svc_run (partition_ops dec gen evs) s"
proof (induction evs arbitrary: s)
  case Nil
  then show ?case by simp
next
  case (Cons ev evs)
  show ?case
  proof (cases ev)
    case (Message raw fault)
    obtain out s' where pm: "process_message dec gen fault s raw = (out, s')"
      by (cases "process_message dec gen fault s raw")
    have s': "s' = (case dec raw of
                      Inl _ \<Rightarrow> s
                    | Inr od \<Rightarrow> if OrderUID od = [] then s else svc_step (OpCreate gen fault od) s)"
      using process_message_state[of dec gen fault s raw] pm by simp
    have "snd (consume_partition dec gen s (ev # evs)) = svc_run (partition_ops dec gen evs) s'"
      using Message pm Cons.IH[of s'] by (simp add: case_prod_beta)
    then show ?thesis using Message s' by (simp split: sum.splits)
  next
    case ConsumerError
    then show ?thesis using Cons.IH[of s] by (simp add: case_prod_beta)
  qed
qed

lemma length_consume_partition: "length (fst (consume_partition dec gen s evs)) = length evs"
  by (induction dec gen s evs rule: consume_partition.induct) (auto split: prod.splits)

lemma partition_ops_fits:
  "\<forall>ev \<in> set evs. \<forall>raw f od. ev = Message raw f \<longrightarrow> dec raw = Inr od \<longrightarrow> length (OrderUID od) \<le> 255 \<Longrightarrow>
   list_all op_fits (partition_ops dec gen evs)"
proof (induction evs)
  case (Cons ev evs)
  then show ?case
    by (cases ev) (auto simp: OrderUID_assign_uid split: sum.splits)
qed simp

text \<open>A processed message leaves its order in the cache under its own identifier.\<close>

lemma process_message_Processed:
  assumes dec: "dec raw = Inr od"
    and pm: "process_message dec gen fault s raw = (Processed k, s')"
  shows "k = OrderUID od \<and> k \<noteq> [] \<and> cache s' k = Some od"
proof -
  have ne: "OrderUID od \<noteq> []" and k: "k = OrderUID od"
    using dec pm by (auto simp: process_message_def split: if_splits prod.splits sum.splits)
  have "create_order gen fault s od = (Inr (), s')"
    using dec pm ne by (auto simp: process_message_def split: prod.splits sum.splits)
  then have "cache s' (OrderUID (assign_uid gen od)) = Some (assign_uid gen od)"
    by (rule create_order_caches)
  with ne k show ?thesis by (simp add: assign_uid_def)
qed

subsection \<open>Properties of the consumer\<close>

text \<open>
  C13 (scenario B).  A message that does not decode, or decodes to an order without
  identifier, is dropped: the outcome is logged and neither the store nor the cache
  changes, so every identifier absent before is still absent.
\<close>

theorem invalid_message_dropped:
  assumes "invalid_message dec raw"
  shows "snd (process_message dec gen fault s raw) = s \<and>
         (fst (process_message dec gen fault s raw) = MissingUID \<or>
          (\<exists>err. fst (process_message dec gen fault s raw) = DecodeFailed err))"
  using assms by (auto simp: invalid_message_def process_message_def split: sum.splits)

theorem invalid_message_dropped_witness:
  "invalid_message (\<lambda>_. Inr (ex_order [] ''T1'')) () \<and>
   snd (process_message (\<lambda>_. Inr (ex_order [] ''T1'')) ''x'' None empty_svc ()) = empty_svc \<and>
   fst (process_message (\<lambda>_. Inr (ex_order [] ''T1'')) ''x'' None empty_svc ()) = MissingUID"
proof -
  have inv: "invalid_message (\<lambda>_. Inr (ex_order [] ''T1'')) ()"
    by (simp add: invalid_message_def ex_order_def)
  from invalid_message_dropped[OF inv, of "''x''" None empty_svc] inv show ?thesis
    by (simp add: process_message_def ex_order_def)
qed

text \<open>
  C14 (scenario A).  When a message decodes to an order and is processed successfully,
  the logged identifier is the order's own, and \<open>GetOrderByUID\<close> of it answers with the
  order's projection from the cache.
\<close>

theorem processed_message_readable:
  assumes dec: "dec raw = Inr od"
    and pm: "process_message dec gen fault s raw = (Processed k, s')"
  shows "k = OrderUID od \<and> get_order_by_uid fault' s' k = (Inr (model_to_response od), s')"
proof -
  from process_message_Processed[OF dec pm] have k: "k = OrderUID od" and c: "cache s' k = Some od"
    by blast+
  from k get_order_by_uid_hit[OF c] show ?thesis by blast
qed

lemma ex_process:
  "process_message (\<lambda>_. Inr (ex_order ''A1'' ''T1'')) ''x'' None empty_svc () =
     (Processed ''A1'', \<lparr>db = [''A1'' \<mapsto> order_to_row (ex_order ''A1'' ''T1'')],
                         cache = [''A1'' \<mapsto> ex_order ''A1'' ''T1'']\<rparr>)"
  by (simp add: process_message_def ex_create) (simp add: ex_order_def)

theorem processed_message_readable_witness:
  "get_order_by_uid None \<lparr>db = [''A1'' \<mapsto> order_to_row (ex_order ''A1'' ''T1'')],
                         cache = [''A1'' \<mapsto> ex_order ''A1'' ''T1'']\<rparr> ''A1'' =
     (Inr (model_to_response (ex_order ''A1'' ''T1'')),
      \<lparr>db = [''A1'' \<mapsto> order_to_row (ex_order ''A1'' ''T1'')],
       cache = [''A1'' \<mapsto> ex_order ''A1'' ''T1'']\<rparr>)"
  using processed_message_readable[where dec = "\<lambda>_. Inr (ex_order ''A1'' ''T1'')" and raw = "()",
          OF refl ex_process, of None]
  by simp

text \<open>
  C15 (ingestion keeps the cache coherent).  Consuming any prefix of a partition's
  events, from a coherent service, leaves it coherent, provided the identifiers of the
  decoded orders fit the \<open>order_uid\<close> column: the consumer's effect on the service is
  exactly the sequence of \<open>CreateOrder\<close> calls of its valid messages, in arrival order.
\<close>

theorem consume_partition_coherent:
  assumes coh: "coherent s"
    and fits: "\<forall>ev \<in> set evs. \<forall>raw f od. ev = Message raw f \<longrightarrow> dec raw = Inr od \<longrightarrow>
                 length (OrderUID od) \<le> 255"
  shows "coherent (snd (consume_partition dec gen s evs))"
  unfolding consume_partition_state
  using coh partition_ops_fits[OF fits] by (rule svc_run_coherent)

theorem consume_partition_coherent_witness:
  "coherent empty_svc \<and>
   coherent (snd (consume_partition (\<lambda>_. Inr (ex_order ''A1'' ''T1'')) ''x'' empty_svc
                    [Message () None, ConsumerError]))"
proof -
  have c: "coherent empty_svc" by (simp add: coherent_def empty_svc_def table_wf_def)
  have f: "\<forall>ev \<in> set [Message () None, ConsumerError]. \<forall>raw f od. ev = Message raw f \<longrightarrow>
      (\<lambda>_. Inr (ex_order ''A1'' ''T1'')) raw = Inr od \<longrightarrow> length (OrderUID od) \<le> 255"
    by (simp add: ex_order_def)
  show ?thesis using c f consume_partition_coherent[OF c f] by simp
qed

end
