(* ===== verification/Api.thy ===== *)
theory Api
  imports Service
begin

text \<open>
  The query interface: \<open>OrderHandler\<close> of api/handler/order_handler.go and the
  routes of api/router.go.  A request is a path split at its slashes; gin matches the
  parameter \<open>:id\<close> only against a non-empty segment and answers an unmatched path
  with 404.  The Swagger route serves static documentation and is not modelled.
  Responses are a status code and a JSON body.
\<close>

datatype http_body =
    JsonError string
  | JsonOrder order_response
  | JsonStatus string string
  | PlainNotFound

record http_response =
  status :: nat
  body :: http_body

text \<open>\<open>OrderHandler.GetOrderByUID\<close>.\<close>

definition handle_get_order_by_uid ::
  "db_error option \<Rightarrow> svc \<Rightarrow> string \<Rightarrow> http_response \<times> svc" where
  "handle_get_order_by_uid fault s order_uid =
     (if order_uid = [] then (\<lparr>status = 400, body = JsonError ''order id is required''\<rparr>, s)
      else (case get_order_by_uid fault s order_uid of
              (Inl _, s') \<Rightarrow> (\<lparr>status = 404, body = JsonError ''order not found''\<rparr>, s')
            | (Inr order, s') \<Rightarrow> (\<lparr>status = 200, body = JsonOrder order\<rparr>, s')))"

text \<open>\<open>OrderHandler.HealthCheck\<close>: a constant answer, no dependency is probed.\<close>

definition health_check :: http_response where
  "health_check = \<lparr>status = 200, body = JsonStatus ''ok'' ''Order service is running''\<rparr>"

text \<open>\<open>Router.SetupRoutes\<close>: \<open>GET /health\<close> and \<open>GET /api/v1/orders/:id\<close>.\<close>

datatype route = RouteHealth | RouteOrder string | RouteNone

definition route_of :: "string list \<Rightarrow> route" where
  "route_of path =
     (if path = [''health''] then RouteHealth
      else (case path of
              [a, b, c, oid] \<Rightarrow>
                if a = ''api'' \<and> b = ''v1'' \<and> c = ''orders'' \<and> oid \<noteq> [] then RouteOrder oid
                else RouteNone
            | _ \<Rightarrow> RouteNone))"

definition serve :: "db_error option \<Rightarrow> svc \<Rightarrow> string list \<Rightarrow> http_response \<times> svc" where
  "serve fault s path =
     (case route_of path of
        RouteHealth \<Rightarrow> (health_check, s)
      | RouteOrder oid \<Rightarrow> handle_get_order_by_uid fault s oid
      | RouteNone \<Rightarrow> (\<lparr>status = 404, body = PlainNotFound\<rparr>, s))"

subsection \<open>Lemmas\<close>

lemma route_of_order: "route_of [''api'', ''v1'', ''orders'', oid] = RouteOrder oid \<longleftrightarrow> oid \<noteq> []"
  by (simp add: route_of_def)

lemma route_of_nonempty: "route_of path = RouteOrder oid \<Longrightarrow> oid \<noteq> []"
  by (auto simp: route_of_def split: if_splits list.splits)

subsection \<open>Properties of the query interface\<close>

text \<open>
  C16 (store outages look like missing orders).  On a cache miss, a lookup whose store
  read fails (connection loss, expired deadline) is answered exactly as a lookup of an
  order that does not exist: 404 with "order not found", and no state changes, even
  when the store holds the order.
\<close>

theorem outage_reported_as_not_found:
  assumes miss: "cache s oid = None" and ne: "oid \<noteq> []" and f: "fault = Some e"
  shows "handle_get_order_by_uid fault s oid =
           (\<lparr>status = 404, body = JsonError ''order not found''\<rparr>, s)"
  using miss ne f
  by (simp add: handle_get_order_by_uid_def get_order_by_uid_def repo_get_order_by_uid_def
      select_row_def)

theorem outage_reported_as_not_found_witness:
  "db \<lparr>db = [''A1'' \<mapsto> order_to_row (ex_order ''A1'' ''T1'')], cache = Map.empty\<rparr> ''A1'' \<noteq> None \<and>
   handle_get_order_by_uid (Some ConnError)
     \<lparr>db = [''A1'' \<mapsto> order_to_row (ex_order ''A1'' ''T1'')], cache = Map.empty\<rparr> ''A1'' =
   (\<lparr>status = 404, body = JsonError ''order not found''\<rparr>,
    \<lparr>db = [''A1'' \<mapsto> order_to_row (ex_order ''A1'' ''T1'')], cache = Map.empty\<rparr>)"
  using outage_reported_as_not_found[of "\<lparr>db = [''A1'' \<mapsto> order_to_row (ex_order ''A1'' ''T1'')],
          cache = Map.empty\<rparr>" "''A1''" "Some ConnError" ConnError]
  by simp

text \<open>
  The 400 branch is unreachable.  Through the routes of \<open>SetupRoutes\<close> no request
  is ever answered with 400: gin never binds \<open>:id\<close> to an empty segment, so the
  handler's check for an empty identifier never fires.
\<close>

theorem serve_never_400: "status (fst (serve fault s path)) \<noteq> 400"
proof (cases "route_of path")
  case (RouteOrder oid)
  then have "oid \<noteq> []" by (rule route_of_nonempty)
  with RouteOrder show ?thesis
    by (auto simp: serve_def handle_get_order_by_uid_def split: prod.splits sum.splits)
qed (simp_all add: serve_def health_check_def)

end
