(* ===== verification/Interleaving.thy ===== *)
theory Interleaving
  imports Service
begin

text \<open>
  Overlapping calls of service/order_service.go.  The consumer runs one goroutine per
  partition and the HTTP server one per request, all sharing one \<open>orderService\<close>.
  Its methods are not atomic: \<open>CreateOrder\<close> writes the store, then takes the write
  lock to write the cache; \<open>GetOrderByUID\<close> reads the cache under the read lock, then on
  a miss reads the store without any lock, then takes the write lock to fill the cache.
  A call is therefore a thread with a program counter, and each of its atomic steps
  (one store statement, which PostgreSQL serialises, or one critical section of
  \<open>cacheMu\<close>) is one \<open>tstep\<close>.  The relation \<open>cstep\<close> lets any unfinished thread take
  its next step.  \<open>RestoreCacheFromDB\<close> runs inside \<open>NewOrderService\<close>, before any
  goroutine starts, and is not a thread.
\<close>

datatype thread =
    CreateStart uid "db_error option" order
  | CreateCache order
  | CreateDone "repo_error + unit"
  | GetStart uid "db_error option"
  | GetFetch uid "db_error option"
  | GetFill uid order
  | GetDone "repo_error + order_response"

fun tstep :: "thread \<Rightarrow> svc \<Rightarrow> thread \<times> svc" where
  "tstep (CreateStart gen fault od) s =
     (case save_order gen fault (db s) od of
        (Inl e, _, tbl') \<Rightarrow> (CreateDone (Inl e), s\<lparr>db := tbl'\<rparr>)
      | (Inr _, od', tbl') \<Rightarrow> (CreateCache od', s\<lparr>db := tbl'\<rparr>))"
| "tstep (CreateCache od) s = (CreateDone (Inr ()), s\<lparr>cache := (cache s)(OrderUID od \<mapsto> od)\<rparr>)"
| "tstep (GetStart k fault) s =
     (case cache s k of
        Some od \<Rightarrow> (GetDone (Inr (model_to_response od)), s)
      | None \<Rightarrow> (GetFetch k fault, s))"
| "tstep (GetFetch k fault) s =
     (case repo_get_order_by_uid fault (db s) k of
        Inl e \<Rightarrow> (GetDone (Inl e), s)
      | Inr od \<Rightarrow> (GetFill k od, s))"
| "tstep (GetFill k od) s = (GetDone (Inr (model_to_response od)), s\<lparr>cache := (cache s)(k \<mapsto> od)\<rparr>)"
| "tstep (CreateDone r) s = (CreateDone r, s)"
| "tstep (GetDone r) s = (GetDone r, s)"

fun finished :: "thread \<Rightarrow> bool" where
  "finished (CreateDone _) \<longleftrightarrow> True"
| "finished (GetDone _) \<longleftrightarrow> True"
| "finished _ \<longleftrightarrow> False"

text \<open>The steps a thread has left.\<close>

fun tcost :: "thread \<Rightarrow> nat" where
  "tcost (CreateStart _ _ _) = 2"
| "tcost (CreateCache _) = 1"
| "tcost (GetStart _ _) = 3"
| "tcost (GetFetch _ _) = 2"
| "tcost (GetFill _ _) = 1"
| "tcost _ = 0"

inductive cstep :: "svc \<times> thread list \<Rightarrow> svc \<times> thread list \<Rightarrow> bool" where
  step: "i < length ts \<Longrightarrow> \<not> finished (ts ! i) \<Longrightarrow> tstep (ts ! i) s = (t', s') \<Longrightarrow>
           cstep (s, ts) (s', ts[i := t'])"

text \<open>Every thread of a configuration has finished.\<close>

definition all_finished :: "thread list \<Rightarrow> bool" where
  "all_finished ts \<longleftrightarrow> list_all finished ts"

definition total_cost :: "thread list \<Rightarrow> nat" where
  "total_cost ts = sum_list (map tcost ts)"

text \<open>One thread run alone to its end.\<close>

function run_thread :: "thread \<Rightarrow> svc \<Rightarrow> thread \<times> svc" where
  "run_thread t s = (if finished t then (t, s) else (case tstep t s of (t', s') \<Rightarrow> run_thread t' s'))"
  by pat_completeness auto
termination
  by (relation "measure (\<lambda>(t, s). tcost t)")
     (auto elim!: finished.elims tcost.elims split: prod.splits sum.splits option.splits)

subsection \<open>The coherence invariant of overlapping calls\<close>

text \<open>The identifier a running thread works on.\<close>

fun thread_key :: "thread \<Rightarrow> uid option" where
  "thread_key (CreateStart gen _ od) = Some (OrderUID (assign_uid gen od))"
| "thread_key (CreateCache od) = Some (OrderUID od)"
| "thread_key (GetStart k _) = Some k"
| "thread_key (GetFetch k _) = Some k"
| "thread_key (GetFill k _) = Some k"
| "thread_key _ = None"

text \<open>A call that has not started yet (the identifier of a save fits its column).\<close>

fun fresh :: "thread \<Rightarrow> bool" where
  "fresh (CreateStart gen _ od) \<longleftrightarrow> length (OrderUID (assign_uid gen od)) \<le> 255"
| "fresh (GetStart _ _) \<longleftrightarrow> True"
| "fresh _ \<longleftrightarrow> False"

text \<open>A coherent cache entry, as in \<open>coherent\<close>.\<close>

definition entry_ok :: "orders_table \<Rightarrow> uid \<Rightarrow> order \<Rightarrow> bool" where
  "entry_ok tbl k od \<longleftrightarrow> OrderUID od = k \<and> length k \<le> 255 \<and> (\<exists>r. tbl k = Some r \<and> mirrors r od)"

text \<open>
  What a thread's program counter knows of the store: a save about to write the cache
  has stored its order; a read about to fill the cache has read the row stored now.
\<close>

fun thread_ok :: "orders_table \<Rightarrow> thread \<Rightarrow> bool" where
  "thread_ok tbl (CreateStart gen _ od) \<longleftrightarrow> length (OrderUID (assign_uid gen od)) \<le> 255"
| "thread_ok tbl (CreateCache od) \<longleftrightarrow> entry_ok tbl (OrderUID od) od"
| "thread_ok tbl (GetFill k od) \<longleftrightarrow> (\<exists>r. tbl k = Some r \<and> od = row_to_order r)"
| "thread_ok tbl _ \<longleftrightarrow> True"

text \<open>A save has written the store under \<open>k\<close> but not yet the cache.\<close>

definition pending :: "thread list \<Rightarrow> uid \<Rightarrow> bool" where
  "pending ts k \<longleftrightarrow>
     (\<exists>j < length ts. case ts ! j of CreateCache od \<Rightarrow> OrderUID od = k | _ \<Rightarrow> False)"

definition keys_distinct :: "thread list \<Rightarrow> bool" where
  "keys_distinct ts \<longleftrightarrow>
     (\<forall>i < length ts. \<forall>j < length ts. i \<noteq> j \<longrightarrow>
        thread_key (ts ! i) = None \<or> thread_key (ts ! i) \<noteq> thread_key (ts ! j))"

text \<open>
  Coherence, relaxed at the identifiers whose save is between its two steps, and the
  threads' knowledge; it holds as long as no two threads share an identifier.
\<close>

definition cinv :: "svc \<times> thread list \<Rightarrow> bool" where
  "cinv c \<longleftrightarrow> table_wf (db (fst c)) \<and> keys_distinct (snd c) \<and>
     list_all (thread_ok (db (fst c))) (snd c) \<and>
     (\<forall>k od. cache (fst c) k = Some od \<longrightarrow> entry_ok (db (fst c)) k od \<or> pending (snd c) k)"

text \<open>
  A scheduler: the list of the threads that take the next steps.  An index that names
  no running thread is skipped.
\<close>

abbreviation run_schedule :: "nat list \<Rightarrow> svc \<times> thread list \<Rightarrow> svc \<times> thread list" where
  "run_schedule \<equiv> run_sched finished tstep"

declare run_thread.simps [simp del]

text \<open>
  How a call's thread can have moved on from the call it started as, and what a
  successful \<open>CreateOrder\<close> leaves behind: its order, cached under its identifier.
\<close>

fun evolved :: "thread \<Rightarrow> thread \<Rightarrow> bool" where
  "evolved (CreateStart gen f od) t \<longleftrightarrow>
     t = CreateStart gen f od \<or> t = CreateCache (assign_uid gen od) \<or> (\<exists>r. t = CreateDone r)"
| "evolved (GetStart k f) t \<longleftrightarrow>
     t = GetStart k f \<or> t = GetFetch k f \<or> (\<exists>od. t = GetFill k od) \<or> (\<exists>r. t = GetDone r)"
| "evolved _ t \<longleftrightarrow> False"

definition readable :: "thread list \<Rightarrow> svc \<Rightarrow> thread list \<Rightarrow> bool" where
  "readable ts0 s ts \<longleftrightarrow> length ts = length ts0 \<and>
     (\<forall>i < length ts0. evolved (ts0 ! i) (ts ! i)) \<and>
     (\<forall>i < length ts0. case ts0 ! i of
        CreateStart gen f od \<Rightarrow>
          ts ! i = CreateDone (Inr ()) \<longrightarrow>
          cache s (OrderUID (assign_uid gen od)) = Some (assign_uid gen od)
      | _ \<Rightarrow> True)"

subsection \<open>Lemmas\<close>

lemma tstep_cost: "\<not> finished t \<Longrightarrow> tcost (fst (tstep t s)) < tcost t"
  by (cases t) (auto split: prod.splits sum.splits option.splits)

inductive_cases cstepE: "cstep c c'"

lemma finished_tcost: "finished t \<longleftrightarrow> tcost t = 0"
  by (cases t) simp_all

lemma total_cost_update:
  "i < length ts \<Longrightarrow> total_cost (ts[i := t']) + tcost (ts ! i) = total_cost ts + tcost t'"
  unfolding total_cost_def by (rule sum_list_map_update)

lemma cstep_cost: "cstep c c' \<Longrightarrow> total_cost (snd c') < total_cost (snd c)"
proof (induction rule: cstep.induct)
  case (step i ts s t' s')
  have "tcost t' < tcost (ts ! i)" using tstep_cost[OF step(2), of s] step(3) by simp
  with total_cost_update[OF step(1), of t'] show ?case by simp
qed

lemma not_all_finished: "\<not> all_finished ts \<Longrightarrow> \<exists>i < length ts. \<not> finished (ts ! i)"
  by (auto simp: all_finished_def list_all_length)

lemma cstep_progress: "\<not> all_finished ts \<Longrightarrow> \<exists>c'. cstep (s, ts) c'"
proof -
  assume "\<not> all_finished ts"
  then obtain i where i: "i < length ts" "\<not> finished (ts ! i)" by (blast dest: not_all_finished)
  obtain t' s' where "tstep (ts ! i) s = (t', s')" by fastforce
  with i show ?thesis by (blast intro: cstep.step)
qed

lemma save_order_result:
  "save_order gen fault tbl od = (res, od', tbl') \<Longrightarrow>
     od' = assign_uid gen od \<and>
     ((\<exists>e. res = Inl e \<and> tbl' = tbl) \<or>
      res = Inr (OrderUID od') \<and> exec_upsert fault tbl od' = Inr tbl')"
  by (auto simp: save_order_def Let_def split: sum.splits db_error.splits if_splits)

lemma tstep_CreateStart:
  assumes st: "tstep (CreateStart gen fault od) s = (t', s')"
  shows "(s' = s \<and> (\<exists>e. t' = CreateDone (Inl e))) \<or>
         (\<exists>tbl'. exec_upsert fault (db s) (assign_uid gen od) = Inr tbl' \<and>
                 s' = s\<lparr>db := tbl'\<rparr> \<and> t' = CreateCache (assign_uid gen od))"
proof -
  obtain res od' tbl' where so: "save_order gen fault (db s) od = (res, od', tbl')"
    by (cases "save_order gen fault (db s) od") auto
  show ?thesis
  proof (cases res)
    case (Inl e)
    with save_order_result[OF so] so st show ?thesis by auto
  next
    case (Inr x)
    have "exec_upsert fault (db s) od' = Inr tbl'"
      using save_order_result[OF so] Inr by auto
    with save_order_result[OF so] so st Inr show ?thesis by auto
  qed
qed

lemma upsert_at_key:
  "length (OrderUID od) \<le> 255 \<Longrightarrow> exec_upsert fault tbl od = Inr tbl' \<Longrightarrow>
     tbl' = tbl(OrderUID od \<mapsto> upsert_row (tbl (OrderUID od)) (order_to_row od))"
  using exec_upsert_table[of fault tbl od tbl'] by simp

lemma tstep_key: "thread_key (fst (tstep t s)) = thread_key t \<or> thread_key (fst (tstep t s)) = None"
proof (cases t)
  case (CreateStart gen fault od)
  obtain t' s' where st: "tstep t s = (t', s')" by fastforce
  from tstep_CreateStart[of gen fault od s t' s'] st CreateStart show ?thesis by auto
qed (auto split: option.splits sum.splits)

lemma tstep_other_key:
  assumes ok: "thread_ok (db s) t" and st: "tstep t s = (t', s')" and k: "thread_key t \<noteq> Some k"
  shows "db s' k = db s k \<and> cache s' k = cache s k"
proof (cases t)
  case (CreateStart gen fault od)
  with ok have fits: "length (OrderUID (assign_uid gen od)) \<le> 255" by simp
  from st CreateStart have st': "tstep (CreateStart gen fault od) s = (t', s')" by simp
  from tstep_CreateStart[OF st'] show ?thesis
  proof (elim disjE exE conjE)
    fix tbl' assume up: "exec_upsert fault (db s) (assign_uid gen od) = Inr tbl'"
      and "s' = s\<lparr>db := tbl'\<rparr>"
    with upsert_at_key[OF fits up] k CreateStart show ?thesis by simp
  qed simp
qed (use st k in \<open>auto split: option.splits sum.splits\<close>)

lemma entry_ok_local: "tbl' k = tbl k \<Longrightarrow> entry_ok tbl' k od = entry_ok tbl k od"
  by (simp add: entry_ok_def)

lemma thread_ok_local:
  "(\<And>k. thread_key t = Some k \<Longrightarrow> tbl' k = tbl k) \<Longrightarrow> thread_ok tbl' t = thread_ok tbl t"
  by (cases t) (simp_all add: entry_ok_def)

lemma tstep_table_wf: "table_wf (db s) \<Longrightarrow> table_wf (db (snd (tstep t s)))"
proof (cases t)
  case (CreateStart gen fault od)
  assume wf: "table_wf (db s)"
  obtain t' s' where st: "tstep t s = (t', s')" by fastforce
  from tstep_CreateStart[of gen fault od s t' s'] st CreateStart wf show ?thesis
    by (auto dest: exec_upsert_table_wf)
qed (auto split: option.splits sum.splits)

lemma tstep_thread_ok:
  assumes wf: "table_wf (db s)" and ok: "thread_ok (db s) t"
  shows "thread_ok (db (snd (tstep t s))) (fst (tstep t s))"
proof (cases t)
  case (CreateStart gen fault od)
  let ?od = "assign_uid gen od"
  from ok CreateStart have fits: "length (OrderUID ?od) \<le> 255" by simp
  obtain t' s' where st: "tstep t s = (t', s')" by fastforce
  from st CreateStart have st': "tstep (CreateStart gen fault od) s = (t', s')" by simp
  have "thread_ok (db s') t'"
    using tstep_CreateStart[OF st']
  proof (elim disjE exE conjE)
    fix tbl' assume up: "exec_upsert fault (db s) ?od = Inr tbl'" and "s' = s\<lparr>db := tbl'\<rparr>"
      and "t' = CreateCache ?od"
    moreover have "\<exists>r. tbl' (OrderUID ?od) = Some r \<and> mirrors r ?od"
      using exec_upsert_mirrors[OF wf up] fits by simp
    ultimately show ?thesis using fits by (simp add: entry_ok_def)
  qed auto
  with st show ?thesis by simp
next
  case (GetFetch k fault)
  then show ?thesis by (auto simp: repo_get_Inr_iff split: sum.splits)
qed (auto split: option.splits)

text \<open>What a step does to the cache entry of its own identifier.\<close>

lemma tstep_own_key:
  assumes wf: "table_wf (db s)" and ok: "thread_ok (db s) t" and st: "tstep t s = (t', s')"
    and k: "thread_key t = Some k" and c: "cache s' k = Some od"
  shows "(cache s k = Some od \<and> db s' k = db s k \<and> (\<forall>od'. t \<noteq> CreateCache od')) \<or>
         (\<exists>od'. t' = CreateCache od' \<and> OrderUID od' = k) \<or> entry_ok (db s') k od"
proof (cases t)
  case (CreateStart gen fault od0)
  from st CreateStart have st': "tstep (CreateStart gen fault od0) s = (t', s')" by simp
  from tstep_CreateStart[OF st'] k c CreateStart show ?thesis by auto
next
  case (CreateCache od0)
  with st k c ok show ?thesis by auto
next
  case (GetFill k0 od0)
  with ok obtain r where r: "db s k0 = Some r" and od0: "od0 = row_to_order r" by auto
  from GetFill st k c od0 have "od = row_to_order r" "s' = s\<lparr>cache := (cache s)(k \<mapsto> od)\<rparr>" "k0 = k"
    by auto
  with row_entry_coherent[OF wf r] show ?thesis by (simp add: entry_ok_def)
qed (use st k c in \<open>auto split: option.splits sum.splits\<close>)

lemma pending_update:
  assumes p: "pending ts k" and i: "i < length ts"
    and ni: "thread_key (ts ! i) \<noteq> Some k \<or> (\<forall>od. ts ! i \<noteq> CreateCache od)"
  shows "pending (ts[i := t']) k"
proof -
  from p obtain j where j0: "j < length ts"
    and c: "case ts ! j of CreateCache od \<Rightarrow> OrderUID od = k | _ \<Rightarrow> False"
    unfolding pending_def by blast
  then obtain od where j: "j < length ts" "ts ! j = CreateCache od" "OrderUID od = k"
    by (cases "ts ! j") auto
  with ni have "j \<noteq> i" by auto
  with j show ?thesis unfolding pending_def by (intro exI[of _ j]) simp
qed

lemma pending_new: "i < length ts \<Longrightarrow> pending (ts[i := CreateCache od]) (OrderUID od)"
  unfolding pending_def by (intro exI[of _ i]) simp

lemma pending_finished: "all_finished ts \<Longrightarrow> \<not> pending ts k"
  by (auto simp: all_finished_def list_all_length pending_def split: thread.splits)

lemma keys_distinct_update:
  assumes kd: "keys_distinct ts" and i: "i < length ts"
    and key: "thread_key t' = thread_key (ts ! i) \<or> thread_key t' = None"
  shows "keys_distinct (ts[i := t'])"
  unfolding keys_distinct_def
proof (intro allI impI)
  fix a b assume a: "a < length (ts[i := t'])" and b: "b < length (ts[i := t'])" and ab: "a \<noteq> b"
  have "thread_key (ts ! a) = None \<or> thread_key (ts ! a) \<noteq> thread_key (ts ! b)"
    "thread_key (ts ! b) = None \<or> thread_key (ts ! b) \<noteq> thread_key (ts ! a)"
    using kd a b ab unfolding keys_distinct_def by auto
  with key ab show "thread_key (ts[i := t'] ! a) = None \<or>
                    thread_key (ts[i := t'] ! a) \<noteq> thread_key (ts[i := t'] ! b)"
    using i by (cases "a = i"; cases "b = i") (auto simp: nth_list_update)
qed

lemma keys_distinct_other:
  "keys_distinct ts \<Longrightarrow> i < length ts \<Longrightarrow> j < length ts \<Longrightarrow> i \<noteq> j \<Longrightarrow>
     thread_key (ts ! j) = Some k \<Longrightarrow> thread_key (ts ! i) \<noteq> Some k"
  unfolding keys_distinct_def by (metis option.distinct(1))

lemma list_all_update_nth:
  "(\<And>j. j < length xs \<Longrightarrow> j \<noteq> i \<Longrightarrow> P (xs ! j)) \<Longrightarrow> P x \<Longrightarrow> list_all P (xs[i := x])"
  unfolding list_all_length by (metis length_list_update nth_list_update_eq nth_list_update_neq)

lemma cinv_parts:
  "cinv (s, ts) \<longleftrightarrow> table_wf (db s) \<and> keys_distinct ts \<and> list_all (thread_ok (db s)) ts \<and>
     (\<forall>k od. cache s k = Some od \<longrightarrow> entry_ok (db s) k od \<or> pending ts k)"
  by (simp add: cinv_def)

text \<open>Every step of every thread keeps the invariant.\<close>

lemma cstep_cinv: "cstep c c' \<Longrightarrow> cinv c \<Longrightarrow> cinv c'"
proof (induction rule: cstep.induct)
  case (step i ts s t' s')
  let ?t = "ts ! i"
  let ?ts = "ts[i := t']"
  have wf: "table_wf (db s)" and kd: "keys_distinct ts" and oks: "list_all (thread_ok (db s)) ts"
    and cc: "\<And>k od. cache s k = Some od \<Longrightarrow> entry_ok (db s) k od \<or> pending ts k"
    using step.prems unfolding cinv_parts by blast+
  have ok: "thread_ok (db s) ?t" using oks step.hyps(1) by (simp add: list_all_length)
  have other: "db s' k = db s k \<and> cache s' k = cache s k" if "thread_key ?t \<noteq> Some k" for k
    using tstep_other_key[OF ok step.hyps(3) that] .
  have wf': "table_wf (db s')" using tstep_table_wf[OF wf, of ?t] step.hyps(3) by simp
  have kd': "keys_distinct ?ts"
    using keys_distinct_update[OF kd step.hyps(1)] tstep_key[of ?t s] step.hyps(3) by simp
  have ok_i: "thread_ok (db s') t'" using tstep_thread_ok[OF wf ok] step.hyps(3) by simp
  have ok_j: "thread_ok (db s') (ts ! j)" if j: "j < length ts" "j \<noteq> i" for j
  proof -
    have "thread_ok (db s) (ts ! j)" using oks j by (simp add: list_all_length)
    moreover have "db s' k = db s k" if "thread_key (ts ! j) = Some k" for k
      using other keys_distinct_other[OF kd step.hyps(1) j(1) j(2)[symmetric] that] by blast
    ultimately show ?thesis using thread_ok_local[of "ts ! j" "db s'" "db s"] by blast
  qed
  have oks': "list_all (thread_ok (db s')) ?ts" by (rule list_all_update_nth[OF ok_j ok_i])
  have cc': "entry_ok (db s') k od \<or> pending ?ts k" if c: "cache s' k = Some od" for k od
  proof (cases "thread_key ?t = Some k")
    case True
    from tstep_own_key[OF wf ok step.hyps(3) True c] show ?thesis
    proof (elim disjE conjE exE)
      assume c0: "cache s k = Some od" and d: "db s' k = db s k" and nc: "\<forall>od'. ?t \<noteq> CreateCache od'"
      from cc[OF c0] show ?thesis
        using entry_ok_local[where tbl' = "db s'" and tbl = "db s" and k = k, OF d]
          pending_update[OF _ step.hyps(1), of k t'] nc by blast
    next
      fix od' assume "t' = CreateCache od'" "OrderUID od' = k"
      with pending_new[OF step.hyps(1), of od'] show ?thesis by simp
    qed simp
  next
    case False
    with other[OF False] c have c0: "cache s k = Some od" and d: "db s' k = db s k" by simp_all
    from cc[OF c0] show ?thesis
      using entry_ok_local[where tbl' = "db s'" and tbl = "db s" and k = k, OF d]
        pending_update[OF _ step.hyps(1), of k t'] False by blast
  qed
  show ?case unfolding cinv_parts using wf' kd' oks' cc' by blast
qed

lemma reachable_cinv: "cstep\<^sup>*\<^sup>* c c' \<Longrightarrow> cinv c \<Longrightarrow> cinv c'"
  by (induction rule: rtranclp_induct) (auto intro: cstep_cinv)

lemma fresh_thread_ok: "fresh t \<Longrightarrow> thread_ok tbl t"
  by (cases t) simp_all

lemma cinv_init:
  "coherent s \<Longrightarrow> list_all fresh ts \<Longrightarrow> keys_distinct ts \<Longrightarrow> cinv (s, ts)"
  unfolding cinv_parts coherent_def entry_ok_def
  by (auto simp: list_all_iff fresh_thread_ok)

lemma cinv_coherent: "cinv (s, ts) \<Longrightarrow> all_finished ts \<Longrightarrow> coherent s"
  unfolding cinv_parts coherent_def entry_ok_def using pending_finished by blast

lemma run_thread_finished: "finished t \<Longrightarrow> run_thread t s = (t, s)"
  by (simp add: run_thread.simps)

lemma run_thread_step: "\<not> finished t \<Longrightarrow> run_thread t s = run_thread (fst (tstep t s)) (snd (tstep t s))"
  by (simp add: run_thread.simps case_prod_beta)

lemma cstep_nth:
  "i < length ts \<Longrightarrow> \<not> finished (ts ! i) \<Longrightarrow>
     cstep (s, ts) (snd (tstep (ts ! i) s), ts[i := fst (tstep (ts ! i) s)])"
  by (rule cstep.step) simp_all

lemma run_schedule_reach: "cstep\<^sup>*\<^sup>* c (run_schedule is c)"
  by (rule run_sched_reach) (rule cstep_nth)

lemma keys_distinct_two:
  "keys_distinct [a, b] \<longleftrightarrow>
     (thread_key a = None \<or> thread_key a \<noteq> thread_key b) \<and>
     (thread_key b = None \<or> thread_key b \<noteq> thread_key a)"
  by (auto simp: keys_distinct_def less_Suc_eq nth_Cons')

lemma incoherent_entry:
  "cache s k = Some od \<Longrightarrow> db s k = Some r \<Longrightarrow> \<not> mirrors r od \<Longrightarrow> \<not> coherent s"
  using coherent_entry by fastforce

lemma run_thread_create:
  "run_thread (CreateStart gen fault od) s =
     (CreateDone (fst (create_order gen fault s od)), snd (create_order gen fault s od))"
proof -
  obtain res od' tbl' where so: "save_order gen fault (db s) od = (res, od', tbl')"
    by (cases "save_order gen fault (db s) od") auto
  show ?thesis
    by (cases res) (simp_all add: run_thread_step run_thread_finished create_order_def so)
qed

lemma run_thread_get:
  "run_thread (GetStart k fault) s =
     (GetDone (fst (get_order_by_uid fault s k)), snd (get_order_by_uid fault s k))"
  by (simp add: run_thread_step run_thread_finished get_order_by_uid_def
      split: option.splits sum.splits)

lemma table_wf_single: "c_order_uid r = k \<Longrightarrow> row_fits r \<Longrightarrow> table_wf [k \<mapsto> r]"
  by (simp add: table_wf_def)

lemma coherent_uncached: "table_wf tbl \<Longrightarrow> coherent \<lparr>db = tbl, cache = Map.empty\<rparr>"
  by (simp add: coherent_def)

lemmas ex_eval = save_order_def exec_upsert_def Let_def assign_uid_def ex_order_def
  empty_svc_def columns_ok_def varchar_ok_def int4_ok_def upsert_row_def order_to_row_def
  varchar_def repo_get_order_by_uid_def select_row_def

text \<open>The state the same-identifier races end in: the old order cached, the new row stored.\<close>

lemma stale_A1:
  assumes cached: "cache s ''A1'' = Some (row_to_order (order_to_row (ex_order ''A1'' ''T1'')))"
    and stored: "db s ''A1'' =
      Some (upsert_row (Some (order_to_row (ex_order ''A1'' ''T1''))) (order_to_row (ex_order ''A1'' ''T2'')))"
  shows "\<not> coherent s \<and> map_option TrackNumber (cache s ''A1'') = Some ''T1'' \<and>
         map_option c_track_number (db s ''A1'') = Some ''T2''"
proof -
  have nm: "\<not> mirrors (upsert_row (Some (order_to_row (ex_order ''A1'' ''T1'')))
                 (order_to_row (ex_order ''A1'' ''T2'')))
               (row_to_order (order_to_row (ex_order ''A1'' ''T1'')))"
    by (simp add: ex_eval mirrors_def set_columns_def row_to_order_def)
  have "\<not> coherent s" by (rule incoherent_entry[OF cached stored nm])
  moreover have "map_option TrackNumber (cache s ''A1'') = Some ''T1''"
    "map_option c_track_number (db s ''A1'') = Some ''T2''"
    unfolding cached stored by (simp_all add: ex_eval row_to_order_def)
  ultimately show ?thesis by blast
qed

lemma table_wf_A1: "table_wf [''A1'' \<mapsto> order_to_row (ex_order ''A1'' ''T1'')]"
  by (rule table_wf_single) (simp_all add: ex_eval row_fits_def)

lemma ex_sched_distinct:
  "run_schedule [1, 0, 1, 0, 1]
     (empty_svc, [CreateStart ''x'' None (ex_order ''A1'' ''T1''), GetStart ''B2'' None]) =
   (\<lparr>db = [''A1'' \<mapsto> order_to_row (ex_order ''A1'' ''T1'')],
     cache = [''A1'' \<mapsto> ex_order ''A1'' ''T1'']\<rparr>,
    [CreateDone (Inr ()), GetDone (Inl (ErrDb ErrNoRows))])"
  by (simp add: ex_eval)

lemma ex_trace_distinct:
  "cstep\<^sup>*\<^sup>* (empty_svc, [CreateStart ''x'' None (ex_order ''A1'' ''T1''), GetStart ''B2'' None])
     (\<lparr>db = [''A1'' \<mapsto> order_to_row (ex_order ''A1'' ''T1'')],
       cache = [''A1'' \<mapsto> ex_order ''A1'' ''T1'']\<rparr>,
      [CreateDone (Inr ()), GetDone (Inl (ErrDb ErrNoRows))])"
  using run_schedule_reach[of "(empty_svc, [CreateStart ''x'' None (ex_order ''A1'' ''T1''),
      GetStart ''B2'' None])" "[1, 0, 1, 0, 1]"] unfolding ex_sched_distinct .

lemma ex_threads_distinct:
  "list_all fresh [CreateStart ''x'' None (ex_order ''A1'' ''T1''), GetStart ''B2'' None] \<and>
   keys_distinct [CreateStart ''x'' None (ex_order ''A1'' ''T1''), GetStart ''B2'' None]"
  by (simp add: keys_distinct_two assign_uid_def ex_order_def)


lemma evolved_tstep: "evolved t0 t \<Longrightarrow> evolved t0 (fst (tstep t s))"
proof (cases t0)
  case (CreateStart gen f od)
  assume ev: "evolved t0 t"
  show ?thesis
  proof (cases "t = CreateStart gen f od")
    case True
    obtain t' s' where st: "tstep t s = (t', s')" by fastforce
    from st True have st': "tstep (CreateStart gen f od) s = (t', s')" by simp
    from tstep_CreateStart[OF st'] st CreateStart show ?thesis by auto
  next
    case False
    with ev CreateStart show ?thesis by auto
  qed
qed (auto split: option.splits sum.splits)

lemma evolved_key: "evolved t0 t \<Longrightarrow> thread_key t = thread_key t0 \<or> thread_key t = None"
  by (cases t0) auto

lemma tstep_cache_other: "thread_key t \<noteq> Some k \<Longrightarrow> cache (snd (tstep t s)) k = cache s k"
  by (cases t) (auto split: prod.splits sum.splits option.splits)

lemma tstep_done_create:
  assumes "evolved (CreateStart gen f od) t" and "\<not> finished t"
    and "fst (tstep t s) = CreateDone (Inr ())"
  shows "cache (snd (tstep t s)) (OrderUID (assign_uid gen od)) = Some (assign_uid gen od)"
proof -
  have "t = CreateStart gen f od \<or> t = CreateCache (assign_uid gen od)" using assms(1,2) by auto
  then show ?thesis
  proof
    assume t: "t = CreateStart gen f od"
    obtain t' s' where st: "tstep t s = (t', s')" by fastforce
    from st t have st': "tstep (CreateStart gen f od) s = (t', s')" by simp
    from tstep_CreateStart[OF st'] st assms(3) show ?thesis by auto
  qed simp
qed

lemma cstep_readable:
  assumes step: "cstep c c'" and kd: "keys_distinct ts0" and r: "readable ts0 (fst c) (snd c)"
  shows "readable ts0 (fst c') (snd c')"
  using step
proof (cases rule: cstep.cases)
  case (step j ts s t' s')
  have r': "readable ts0 s ts" using r step(1) by simp
  have len: "length ts = length ts0" and ev: "\<And>i. i < length ts0 \<Longrightarrow> evolved (ts0 ! i) (ts ! i)"
    using r' unfolding readable_def by simp_all
  have cr: "\<forall>i < length ts0. case ts0 ! i of
        CreateStart gen f od \<Rightarrow> ts ! i = CreateDone (Inr ()) \<longrightarrow>
          cache s (OrderUID (assign_uid gen od)) = Some (assign_uid gen od)
      | _ \<Rightarrow> True"
    using r' unfolding readable_def by simp
  have j: "j < length ts0" using step(3) len by simp
  have ev': "evolved (ts0 ! i) (ts[j := t'] ! i)" if i: "i < length ts0" for i
    using ev[OF i] evolved_tstep[OF ev[OF j], of s] step(5) len j by (cases "i = j") simp_all
  have cr': "case ts0 ! i of
        CreateStart gen f od \<Rightarrow> ts[j := t'] ! i = CreateDone (Inr ()) \<longrightarrow>
          cache s' (OrderUID (assign_uid gen od)) = Some (assign_uid gen od)
      | _ \<Rightarrow> True" if i: "i < length ts0" for i
  proof (cases "ts0 ! i")
    case (CreateStart gen f od)
    show ?thesis
    proof (cases "i = j")
      case True
      with CreateStart ev[OF i] step(4,5) tstep_done_create[of gen f od "ts ! j" s] len i
      show ?thesis by simp
    next
      case False
      have "thread_key (ts ! j) \<noteq> Some (OrderUID (assign_uid gen od))"
      proof
        assume k: "thread_key (ts ! j) = Some (OrderUID (assign_uid gen od))"
        with evolved_key[OF ev[OF j]] have "thread_key (ts0 ! j) = thread_key (ts0 ! i)"
          using CreateStart by auto
        with keys_distinct_other[OF kd i j False] CreateStart show False by simp
      qed
      from tstep_cache_other[OF this, of s] step(5) have "cache s' (OrderUID (assign_uid gen od)) =
          cache s (OrderUID (assign_uid gen od))" by simp
      with cr[rule_format, OF i] CreateStart False len i show ?thesis by simp
    qed
  qed simp_all
  show ?thesis unfolding step(2) fst_conv snd_conv readable_def using len ev' cr' by simp
qed

lemma reachable_readable:
  "cstep\<^sup>*\<^sup>* c c' \<Longrightarrow> keys_distinct ts0 \<Longrightarrow> readable ts0 (fst c) (snd c) \<Longrightarrow>
     readable ts0 (fst c') (snd c')"
  by (induction rule: rtranclp_induct) (auto intro: cstep_readable)

lemma readable_init: "list_all fresh ts0 \<Longrightarrow> readable ts0 s ts0"
  by (auto simp: readable_def list_all_length split: thread.splits elim!: fresh.elims)

subsection \<open>Properties of overlapping calls\<close>

text \<open>
  C17 (overlapping calls on distinct identifiers keep the cache coherent).  Start from a
  coherent service and any number of \<open>CreateOrder\<close> and \<open>GetOrderByUID\<close> calls, no two
  on the same identifier (and every created identifier fitting its column).  However
  the scheduler interleaves their steps, once every call has returned the service is
  coherent again: the read/write lock suffices when calls do not share an identifier.
\<close>

theorem interleaved_distinct_keys_coherent:
  assumes "coherent s" and "list_all fresh ts" and "keys_distinct ts"
    and "cstep\<^sup>*\<^sup>* (s, ts) (s', ts')" and "all_finished ts'"
  shows "coherent s'"
  using cinv_coherent[OF reachable_cinv[OF assms(4) cinv_init[OF assms(1-3)]] assms(5)] .

theorem interleaved_distinct_keys_coherent_witness:
  "coherent empty_svc \<and>
   list_all fresh [CreateStart ''x'' None (ex_order ''A1'' ''T1''), GetStart ''B2'' None] \<and>
   keys_distinct [CreateStart ''x'' None (ex_order ''A1'' ''T1''), GetStart ''B2'' None] \<and>
   cstep\<^sup>*\<^sup>* (empty_svc, [CreateStart ''x'' None (ex_order ''A1'' ''T1''), GetStart ''B2'' None])
     (\<lparr>db = [''A1'' \<mapsto> order_to_row (ex_order ''A1'' ''T1'')],
       cache = [''A1'' \<mapsto> ex_order ''A1'' ''T1'']\<rparr>,
      [CreateDone (Inr ()), GetDone (Inl (ErrDb ErrNoRows))]) \<and>
   all_finished [CreateDone (Inr ()), GetDone (Inl (ErrDb ErrNoRows))] \<and>
   coherent \<lparr>db = [''A1'' \<mapsto> order_to_row (ex_order ''A1'' ''T1'')],
             cache = [''A1'' \<mapsto> ex_order ''A1'' ''T1'']\<rparr>"
proof -
  have c: "coherent empty_svc" by (simp add: coherent_def empty_svc_def table_wf_def)
  have a: "all_finished [CreateDone (Inr ()), GetDone (Inl (ErrDb ErrNoRows))]"
    by (simp add: all_finished_def)
  from ex_threads_distinct have f: "list_all fresh [CreateStart ''x'' None (ex_order ''A1'' ''T1''),
      GetStart ''B2'' None]" and k: "keys_distinct [CreateStart ''x'' None (ex_order ''A1'' ''T1''),
      GetStart ''B2'' None]" by simp_all
  show ?thesis
    using interleaved_distinct_keys_coherent[OF c f k ex_trace_distinct a] c f k ex_trace_distinct a
    by blast
qed

text \<open>
  C18 (the stale read-through race).  For one identifier the lock does not suffice.  With
  order A1 stored but not cached, a \<open>GetOrderByUID\<close> that misses and reads the row,
  overtaken by a \<open>CreateOrder\<close> that rewrites A1 in store and cache, then fills the
  cache with the row it read: every call has returned, and the cache serves track
  number T1 while the store holds T2, a state no sequential run reaches.
\<close>

theorem same_key_race_stale:
  "coherent \<lparr>db = [''A1'' \<mapsto> order_to_row (ex_order ''A1'' ''T1'')], cache = Map.empty\<rparr> \<and>
   (\<exists>c. cstep\<^sup>*\<^sup>* (\<lparr>db = [''A1'' \<mapsto> order_to_row (ex_order ''A1'' ''T1'')], cache = Map.empty\<rparr>,
                  [CreateStart ''x'' None (ex_order ''A1'' ''T2''), GetStart ''A1'' None]) c \<and>
        all_finished (snd c) \<and> \<not> coherent (fst c) \<and>
        map_option TrackNumber (cache (fst c) ''A1'') = Some ''T1'' \<and>
        map_option c_track_number (db (fst c) ''A1'') = Some ''T2'')"
proof -
  let ?s0 = "\<lparr>db = [''A1'' \<mapsto> order_to_row (ex_order ''A1'' ''T1'')], cache = Map.empty\<rparr>"
  let ?ts = "[CreateStart ''x'' None (ex_order ''A1'' ''T2''), GetStart ''A1'' None]"
  let ?c = "run_schedule [1, 1, 0, 0, 1] (?s0, ?ts)"
  have c0: "coherent ?s0" by (rule coherent_uncached[OF table_wf_A1])
  have fin: "all_finished (snd ?c)" by (simp add: ex_eval all_finished_def)
  have st: "\<not> coherent (fst ?c) \<and> map_option TrackNumber (cache (fst ?c) ''A1'') = Some ''T1'' \<and>
      map_option c_track_number (db (fst ?c) ''A1'') = Some ''T2''"
    by (rule stale_A1) (simp_all add: ex_eval)
  show ?thesis using c0 run_schedule_reach[of "(?s0, ?ts)" "[1, 1, 0, 0, 1]"] fin st by blast
qed

text \<open>
  The split calls refine the atomic ones.  Run alone, the steps of a
  \<open>CreateOrder\<close> thread and of a \<open>GetOrderByUID\<close> thread end with exactly the result and
  the state of the atomic \<open>create_order\<close> and \<open>get_order_by_uid\<close> of theory
  \<open>Service\<close>, on which the sequential properties are proved.
\<close>

theorem thread_runs_refine_calls:
  "run_thread (CreateStart gen fault od) s =
     (CreateDone (fst (create_order gen fault s od)), snd (create_order gen fault s od)) \<and>
   run_thread (GetStart k fault) s =
     (GetDone (fst (get_order_by_uid fault s k)), snd (get_order_by_uid fault s k))"
  using run_thread_create run_thread_get by blast

text \<open>
  Bounded interleavings.  Every interleaving of the calls' steps has at most as
  many steps as the calls have left: two per \<open>CreateOrder\<close>, three per
  \<open>GetOrderByUID\<close>.
\<close>

theorem interleaving_steps_bounded: "(cstep ^^ n) c c' \<Longrightarrow> n \<le> total_cost (snd c)"
proof (induction n arbitrary: c)
  case (Suc n)
  obtain c1 where c1: "cstep c c1" and r: "(cstep ^^ n) c1 c'"
    using Suc.prems by (rule relpowp_Suc_E2)
  from Suc.IH[OF r] cstep_cost[OF c1] show ?case by simp
qed simp

theorem interleaving_steps_bounded_witness:
  "(cstep ^^ 1) (empty_svc, [GetStart ''A1'' None]) (empty_svc, [GetFetch ''A1'' None]) \<and>
   1 \<le> total_cost (snd (empty_svc, [GetStart ''A1'' None]))"
proof -
  have "cstep (empty_svc, [GetStart ''A1'' None]) (empty_svc, [GetFetch ''A1'' None])"
    using cstep_nth[of 0 "[GetStart ''A1'' None]" empty_svc] by (simp add: empty_svc_def)
  then have st: "(cstep ^^ 1) (empty_svc, [GetStart ''A1'' None]) (empty_svc, [GetFetch ''A1'' None])"
    by (simp only: relpowp_1)
  show ?thesis using st interleaving_steps_bounded[OF st] by simp
qed

text \<open>
  No interleaving runs forever.  The step relation of overlapping calls is
  well founded: no scheduler can interleave the calls' steps without end.
\<close>

theorem interleaving_terminates: "wf {(c', c). cstep c c'}"
proof (rule wf_subset[OF wf_measure])
  show "{(c', c). cstep c c'} \<subseteq> measure (\<lambda>c. total_cost (snd c))"
    using cstep_cost by auto
qed

text \<open>
  Every call returns.  From any configuration, some interleaving leads to one in
  which every call has returned; no configuration is stuck before that
  (\<open>cstep_progress\<close>).
\<close>

theorem interleaving_completes: "\<exists>c'. cstep\<^sup>*\<^sup>* c c' \<and> all_finished (snd c')"
proof (induction "total_cost (snd c)" arbitrary: c rule: less_induct)
  case less
  obtain s ts where c: "c = (s, ts)" by fastforce
  show ?case
  proof (cases "all_finished ts")
    case True
    with c show ?thesis by auto
  next
    case False
    from cstep_progress[OF False] obtain c1 where c1: "cstep (s, ts) c1" by blast
    from cstep_cost[OF c1] c have "total_cost (snd c1) < total_cost (snd c)" by simp
    from less[OF this] obtain c' where "cstep\<^sup>*\<^sup>* c1 c'" "all_finished (snd c')" by blast
    with c1 c show ?thesis by (blast intro: converse_rtranclp_into_rtranclp)
  qed
qed

text \<open>
  C26 (every created identifier is readable).  In any interleaving of fresh calls on
  pairwise distinct identifiers, a \<open>CreateOrder\<close> that has returned success has left its
  order in the cache: a later \<open>GetOrderByUID\<close> of its identifier answers with that
  order from the cache, whatever the store does.  With \<open>interleaving_completes\<close> (every call returns) this is
  the spec's "each created identifier is eventually readable".
\<close>

theorem created_orders_readable:
  assumes fr: "list_all fresh ts" and kd: "keys_distinct ts"
    and run: "cstep\<^sup>*\<^sup>* (s, ts) (s', ts')" and i: "i < length ts"
    and t0: "ts ! i = CreateStart gen fault od" and fin: "ts' ! i = CreateDone (Inr ())"
  shows "get_order_by_uid fault' s' (OrderUID (assign_uid gen od)) =
           (Inr (model_to_response (assign_uid gen od)), s')"
proof -
  have "readable ts (fst (s', ts')) (snd (s', ts'))"
    using reachable_readable[OF run kd] readable_init[OF fr, of s] by simp
  with i t0 fin have "cache s' (OrderUID (assign_uid gen od)) = Some (assign_uid gen od)"
    unfolding readable_def by fastforce
  then show ?thesis by (rule get_order_by_uid_hit)
qed

theorem created_orders_readable_witness:
  "get_order_by_uid None
     \<lparr>db = [''A1'' \<mapsto> order_to_row (ex_order ''A1'' ''T1'')], cache = [''A1'' \<mapsto> ex_order ''A1'' ''T1'']\<rparr>
     (OrderUID (assign_uid ''x'' (ex_order ''A1'' ''T1''))) =
   (Inr (model_to_response (assign_uid ''x'' (ex_order ''A1'' ''T1''))),
    \<lparr>db = [''A1'' \<mapsto> order_to_row (ex_order ''A1'' ''T1'')], cache = [''A1'' \<mapsto> ex_order ''A1'' ''T1'']\<rparr>)"
  using ex_threads_distinct
  by (intro created_orders_readable[OF _ _ ex_trace_distinct, of 0]) simp_all

end
