(* ===== verification/Startup.thy ===== *)
theory Startup
  imports Interleaving
begin

text \<open>
  \<open>RestoreCacheFromDB\<close> (service/order_service.go) as a thread among the calls of theory
  \<open>Interleaving\<close>.  It is not atomic either: \<open>GetAllOrders\<close>
  (repository/order_repo.go) runs the key query, then one \<open>GetOrderByUID\<close> statement
  per delivered key, all without the lock; only the final loop
  \<open>s.cache[order.OrderUID] = order\<close> runs under the write lock.  \<open>main\<close> runs it inside
  \<open>NewOrderService\<close> before it starts the consumer or the HTTP server, so in the
  program it never overlaps a call.  This theory shows what that order prevents:
  a restore that did overlap a \<open>CreateOrder\<close> could put back an order the create had
  just replaced.

  A thread is either a call of \<open>Interleaving\<close> or a restore at one of its program
  points: before the query, in the row loop with the rows left and the orders fetched
  so far, before the locked fill, or returned.
\<close>

datatype sthread =
    Call thread
  | RestoreQuery scan_env
  | RestoreFetch scan_env "(db_error + uid) list" "order list"
  | RestoreFill "order list"
  | RestoreDone "repo_error + unit"

fun sstep :: "sthread \<Rightarrow> svc \<Rightarrow> sthread \<times> svc" where
  "sstep (Call t) s = (case tstep t s of (t', s') \<Rightarrow> (Call t', s'))"
| "sstep (RestoreQuery env) s =
     (case query_fault env of
        Some e \<Rightarrow> (RestoreDone (Inl (ErrDb e)), s)
      | None \<Rightarrow> (RestoreFetch env (rows env) [], s))"
| "sstep (RestoreFetch env [] acc) s = (RestoreFill acc, s)"
| "sstep (RestoreFetch env (Inl _ # rs) acc) s = (RestoreFetch env rs acc, s)"
| "sstep (RestoreFetch env (Inr k # rs) acc) s =
     (case repo_get_order_by_uid (fetch_fault env k) (db s) k of
        Inl _ \<Rightarrow> (RestoreFetch env rs acc, s)
      | Inr od \<Rightarrow> (RestoreFetch env rs (acc @ [od]), s))"
| "sstep (RestoreFill acc) s =
     (RestoreDone (Inr ()), s\<lparr>cache := upd_all OrderUID acc (cache s)\<rparr>)"
| "sstep (RestoreDone r) s = (RestoreDone r, s)"

fun sfinished :: "sthread \<Rightarrow> bool" where
  "sfinished (Call t) \<longleftrightarrow> finished t"
| "sfinished (RestoreDone _) \<longleftrightarrow> True"
| "sfinished _ \<longleftrightarrow> False"

inductive scstep :: "svc \<times> sthread list \<Rightarrow> svc \<times> sthread list \<Rightarrow> bool" where
  step: "i < length ts \<Longrightarrow> \<not> sfinished (ts ! i) \<Longrightarrow> sstep (ts ! i) s = (t', s') \<Longrightarrow>
           scstep (s, ts) (s', ts[i := t'])"

text \<open>A scheduler for concrete runs, as \<open>run_schedule\<close>.\<close>

abbreviation run_sschedule :: "nat list \<Rightarrow> svc \<times> sthread list \<Rightarrow> svc \<times> sthread list" where
  "run_sschedule \<equiv> run_sched sfinished sstep"

subsection \<open>Lemmas\<close>

inductive_cases scstepE: "scstep c c'"

lemma scstep_nth:
  "i < length ts \<Longrightarrow> \<not> sfinished (ts ! i) \<Longrightarrow>
     scstep (s, ts) (snd (sstep (ts ! i) s), ts[i := fst (sstep (ts ! i) s)])"
  by (rule scstep.step) simp_all

lemma run_sschedule_reach: "scstep\<^sup>*\<^sup>* c (run_sschedule is c)"
  by (rule run_sched_reach) (rule scstep_nth)

text \<open>A lone thread's step, as a step of the configuration.\<close>

lemma scstep_single:
  "\<not> sfinished t \<Longrightarrow> sstep t s = (t', s') \<Longrightarrow> scstep (s, [t]) (s', [t'])"
  using scstep.step[of 0 "[t]" s t' s'] by simp

text \<open>The row loop of a lone restore collects exactly what \<open>fetch_orders\<close> returns.\<close>

lemma restore_fetch_run:
  "scstep\<^sup>*\<^sup>* (s, [RestoreFetch env rs acc])
     (s, [RestoreFill (acc @ fetch_orders (fetch_fault env) (db s) rs)])"
proof (induction rs arbitrary: acc)
  case Nil
  show ?case by (rule r_into_rtranclp, rule scstep_single) simp_all
next
  case (Cons r rs)
  show ?case
  proof (cases r)
    case (Inl e)
    have "scstep (s, [RestoreFetch env (r # rs) acc]) (s, [RestoreFetch env rs acc])"
      using Inl by (intro scstep_single) simp_all
    with Cons.IH[of acc] Inl show ?thesis by (simp add: converse_rtranclp_into_rtranclp)
  next
    case (Inr k)
    show ?thesis
    proof (cases "repo_get_order_by_uid (fetch_fault env k) (db s) k")
      case (Inl e)
      have "scstep (s, [RestoreFetch env (r # rs) acc]) (s, [RestoreFetch env rs acc])"
        using Inr Inl by (intro scstep_single) simp_all
      with Cons.IH[of acc] Inr Inl show ?thesis by (simp add: converse_rtranclp_into_rtranclp)
    next
      case (Inr od)
      have "scstep (s, [RestoreFetch env (r # rs) acc]) (s, [RestoreFetch env rs (acc @ [od])])"
        using \<open>r = Inr k\<close> Inr by (intro scstep_single) simp_all
      with Cons.IH[of "acc @ [od]"] \<open>r = Inr k\<close> Inr show ?thesis
        by (simp add: converse_rtranclp_into_rtranclp)
    qed
  qed
qed

subsection \<open>Properties of the restore thread\<close>

text \<open>
  The split restore refines the atomic one.  Run alone, the steps of a restore
  thread reach exactly the state and the result of \<open>restore_cache_from_db\<close>, on which
  C5, C6 and C25 are proved: the row loop fetches, from the table as it stands,
  exactly the orders \<open>fetch_orders\<close> returns.
\<close>

theorem restore_thread_refines:
  "scstep\<^sup>*\<^sup>* (s, [RestoreQuery env])
     (snd (restore_cache_from_db env s), [RestoreDone (fst (restore_cache_from_db env s))])"
proof (cases "query_fault env")
  case (Some e)
  then have "scstep (s, [RestoreQuery env]) (s, [RestoreDone (Inl (ErrDb e))])"
    by (intro scstep_single) simp_all
  with Some show ?thesis
    by (simp add: restore_cache_from_db_def get_all_orders_def r_into_rtranclp)
next
  case None
  let ?os = "fetch_orders (fetch_fault env) (db s) (rows env)"
  have q: "scstep (s, [RestoreQuery env]) (s, [RestoreFetch env (rows env) []])"
    using None by (intro scstep_single) simp_all
  have f: "scstep\<^sup>*\<^sup>* (s, [RestoreFetch env (rows env) []]) (s, [RestoreFill ?os])"
    using restore_fetch_run[of s env "rows env" "[]"] by simp
  have l: "scstep (s, [RestoreFill ?os]) (s\<lparr>cache := upd_all OrderUID ?os (cache s)\<rparr>, [RestoreDone (Inr ())])"
    by (intro scstep_single) simp_all
  from q f l have "scstep\<^sup>*\<^sup>* (s, [RestoreQuery env])
      (s\<lparr>cache := upd_all OrderUID ?os (cache s)\<rparr>, [RestoreDone (Inr ())])"
    by (meson converse_rtranclp_into_rtranclp rtranclp.rtrancl_into_rtrancl)
  with None show ?thesis by (simp add: restore_cache_from_db_def get_all_orders_def)
qed

text \<open>
  Why the restore must finish before serving.  Were \<open>RestoreCacheFromDB\<close> to
  overlap a \<open>CreateOrder\<close> of an order it is restoring, it could fetch the old row, let
  the create rewrite store and cache, and then fill the cache with the old order: once
  both have returned, the cache serves track number T1 while the store holds T2.
  \<open>main\<close> excludes this by building the service before it starts any goroutine.
\<close>

theorem restore_overlap_stale:
  "coherent \<lparr>db = [''A1'' \<mapsto> order_to_row (ex_order ''A1'' ''T1'')], cache = Map.empty\<rparr> \<and>
   (\<exists>c. scstep\<^sup>*\<^sup>* (\<lparr>db = [''A1'' \<mapsto> order_to_row (ex_order ''A1'' ''T1'')], cache = Map.empty\<rparr>,
                   [RestoreQuery \<lparr>query_fault = None, rows = [Inr ''A1''], fetch_fault = \<lambda>_. None\<rparr>,
                    Call (CreateStart ''x'' None (ex_order ''A1'' ''T2''))]) c \<and>
        list_all sfinished (snd c) \<and> \<not> coherent (fst c) \<and>
        map_option TrackNumber (cache (fst c) ''A1'') = Some ''T1'' \<and>
        map_option c_track_number (db (fst c) ''A1'') = Some ''T2'')"
proof -
  let ?s0 = "\<lparr>db = [''A1'' \<mapsto> order_to_row (ex_order ''A1'' ''T1'')], cache = Map.empty\<rparr>"
  let ?ts = "[RestoreQuery \<lparr>query_fault = None, rows = [Inr ''A1''], fetch_fault = \<lambda>_. None\<rparr>,
              Call (CreateStart ''x'' None (ex_order ''A1'' ''T2''))]"
  let ?c = "run_sschedule [0, 0, 1, 1, 0, 0] (?s0, ?ts)"
  have c0: "coherent ?s0" by (rule coherent_uncached[OF table_wf_A1])
  have fin: "list_all sfinished (snd ?c)" by (simp add: ex_eval)
  have st: "\<not> coherent (fst ?c) \<and> map_option TrackNumber (cache (fst ?c) ''A1'') = Some ''T1'' \<and>
      map_option c_track_number (db (fst ?c) ''A1'') = Some ''T2''"
    by (rule stale_A1) (simp_all add: ex_eval)
  show ?thesis using c0 run_sschedule_reach[of "(?s0, ?ts)" "[0, 0, 1, 1, 0, 0]"] fin st by blast
qed

end
