(* ===== verification/Partitions.thy ===== *)
theory Partitions
  imports Interleaving Consumer
begin

text \<open>
  The goroutines \<open>Consumer.Start\<close> runs, one \<open>consumePartition\<close> loop per partition
  (kafka/consumer.go), as threads over the shared service.  A partition thread holds
  the \<open>CreateOrder\<close> call of the message it is processing, if any, as a thread of
  theory \<open>Interleaving\<close>, and the events of its partition still to come.  Between
  calls it takes the next event: an invalid message or a consumer error is dropped in
  one step, a valid message starts its call.  Messages of one partition are thus
  processed in arrival order, while the steps of different partitions' calls
  interleave.  As in theory \<open>Consumer\<close>, the loop is modelled on finite prefixes.
\<close>

datatype 'raw pthread = PThread "thread option" "'raw pc_event list"

fun pstep ::
  "('raw \<Rightarrow> string + order) \<Rightarrow> uid \<Rightarrow> 'raw pthread \<Rightarrow> svc \<Rightarrow> 'raw pthread \<times> svc" where
  "pstep dec gen (PThread (Some t) evs) s =
     (if finished t then (PThread None evs, s)
      else (case tstep t s of (t', s') \<Rightarrow> (PThread (Some t') evs, s')))"
| "pstep dec gen (PThread None []) s = (PThread None [], s)"
| "pstep dec gen (PThread None (ConsumerError # evs)) s = (PThread None evs, s)"
| "pstep dec gen (PThread None (Message raw fault # evs)) s =
     (case dec raw of
        Inl _ \<Rightarrow> (PThread None evs, s)
      | Inr od \<Rightarrow>
          if OrderUID od = [] then (PThread None evs, s)
          else (PThread (Some (CreateStart gen fault od)) evs, s))"

fun pidle :: "'raw pthread \<Rightarrow> bool" where
  "pidle (PThread None []) \<longleftrightarrow> True"
| "pidle _ \<longleftrightarrow> False"

inductive pcstep ::
  "('raw \<Rightarrow> string + order) \<Rightarrow> uid \<Rightarrow> svc \<times> 'raw pthread list \<Rightarrow> svc \<times> 'raw pthread list \<Rightarrow> bool"
  for dec gen where
  step: "i < length ps \<Longrightarrow> \<not> pidle (ps ! i) \<Longrightarrow> pstep dec gen (ps ! i) s = (p', s') \<Longrightarrow>
           pcstep dec gen (s, ps) (s', ps[i := p'])"

text \<open>The steps a partition thread has left: four per event at most, and its call's.\<close>

fun pcost :: "'raw pthread \<Rightarrow> nat" where
  "pcost (PThread None evs) = 4 * length evs"
| "pcost (PThread (Some t) evs) = tcost t + 1 + 4 * length evs"

text \<open>A scheduler for concrete runs, as \<open>run_schedule\<close>.\<close>

abbreviation run_pschedule ::
  "('raw \<Rightarrow> string + order) \<Rightarrow> uid \<Rightarrow> nat list \<Rightarrow> svc \<times> 'raw pthread list \<Rightarrow> svc \<times> 'raw pthread list" where
  "run_pschedule dec gen \<equiv> run_sched pidle (pstep dec gen)"

subsection \<open>Coherence across partitions\<close>

text \<open>
  The call a partition thread runs, as a thread of \<open>Interleaving\<close>; between messages a
  partition runs none, which counts as a call that has returned.
\<close>

fun pcall :: "'raw pthread \<Rightarrow> thread" where
  "pcall (PThread (Some t) _) = t"
| "pcall (PThread None _) = CreateDone (Inr ())"

text \<open>The identifier an event makes a partition work on: that of a valid message.\<close>

fun msg_key :: "('raw \<Rightarrow> string + order) \<Rightarrow> 'raw pc_event \<Rightarrow> uid list" where
  "msg_key dec (Message raw _) =
     (case dec raw of Inl _ \<Rightarrow> [] | Inr od \<Rightarrow> if OrderUID od = [] then [] else [OrderUID od])"
| "msg_key dec ConsumerError = []"

text \<open>The identifiers a partition works on now or will work on.\<close>

fun pkeys :: "('raw \<Rightarrow> string + order) \<Rightarrow> 'raw pthread \<Rightarrow> uid list" where
  "pkeys dec (PThread c evs) =
     (case c of None \<Rightarrow> [] | Some t \<Rightarrow> (case thread_key t of None \<Rightarrow> [] | Some k \<Rightarrow> [k])) @
     concat (map (msg_key dec) evs)"

text \<open>Every identifier still to come in a partition fits its column.\<close>

fun pfits :: "('raw \<Rightarrow> string + order) \<Rightarrow> 'raw pthread \<Rightarrow> bool" where
  "pfits dec (PThread _ evs) \<longleftrightarrow> list_all (\<lambda>k. length k \<le> 255) (concat (map (msg_key dec) evs))"

text \<open>No identifier is worked on by two partitions.\<close>

definition partitions_disjoint :: "('raw \<Rightarrow> string + order) \<Rightarrow> 'raw pthread list \<Rightarrow> bool" where
  "partitions_disjoint dec ps \<longleftrightarrow>
     (\<forall>i < length ps. \<forall>j < length ps. i \<noteq> j \<longrightarrow> set (pkeys dec (ps ! i)) \<inter> set (pkeys dec (ps ! j)) = {})"

text \<open>The invariant: \<open>cinv\<close> of the calls the partitions run, and the two conditions above.\<close>

definition pinv :: "('raw \<Rightarrow> string + order) \<Rightarrow> svc \<times> 'raw pthread list \<Rightarrow> bool" where
  "pinv dec c \<longleftrightarrow> cinv (fst c, map pcall (snd c)) \<and> partitions_disjoint dec (snd c) \<and>
     list_all (pfits dec) (snd c)"

subsection \<open>Lemmas\<close>

lemma pcstep_single:
  "\<not> pidle p \<Longrightarrow> pstep dec gen p s = (p', s') \<Longrightarrow> pcstep dec gen (s, [p]) (s', [p'])"
  using pcstep.step[of 0 "[p]" dec gen s p' s'] by simp

text \<open>A call inside a lone partition thread runs as \<open>run_thread\<close> runs it.\<close>

lemma partition_call_run:
  "(pcstep dec gen)\<^sup>*\<^sup>* (s, [PThread (Some t) evs])
     (snd (run_thread t s), [PThread (Some (fst (run_thread t s))) evs])"
proof (induction t s rule: run_thread.induct)
  case (1 t s)
  show ?case
  proof (cases "finished t")
    case True
    then show ?thesis by (simp add: run_thread_finished)
  next
    case False
    obtain t' s' where st: "tstep t s = (t', s')" by fastforce
    have "pcstep dec gen (s, [PThread (Some t) evs]) (s', [PThread (Some t') evs])"
      using False st by (intro pcstep_single) simp_all
    moreover have "run_thread t s = run_thread t' s'" using False st by (simp add: run_thread_step)
    ultimately show ?thesis using "1.IH"[OF False st[symmetric]]
      by (simp add: converse_rtranclp_into_rtranclp)
  qed
qed

text \<open>Processing one valid message inside a lone partition thread.\<close>

lemma partition_message_run:
  assumes dec: "dec raw = Inr od" and ne: "OrderUID od \<noteq> []"
  shows "(pcstep dec gen)\<^sup>*\<^sup>* (s, [PThread None (Message raw fault # evs)])
           (snd (process_message dec gen fault s raw), [PThread None evs])"
proof -
  let ?t = "CreateStart gen fault od"
  have a: "pcstep dec gen (s, [PThread None (Message raw fault # evs)]) (s, [PThread (Some ?t) evs])"
    using dec ne by (intro pcstep_single) simp_all
  have b: "(pcstep dec gen)\<^sup>*\<^sup>* (s, [PThread (Some ?t) evs])
      (snd (run_thread ?t s), [PThread (Some (fst (run_thread ?t s))) evs])"
    by (rule partition_call_run)
  have fin: "finished (fst (run_thread ?t s))" by (simp add: run_thread_create)
  have c: "pcstep dec gen (snd (run_thread ?t s), [PThread (Some (fst (run_thread ?t s))) evs])
      (snd (run_thread ?t s), [PThread None evs])"
    using fin by (intro pcstep_single) simp_all
  have "snd (process_message dec gen fault s raw) = snd (run_thread ?t s)"
    using dec ne by (simp add: process_message_state run_thread_create)
  with a b c show ?thesis
    by (metis (no_types, lifting) converse_rtranclp_into_rtranclp rtranclp.rtrancl_into_rtrancl)
qed

lemma consume_partition_snd_Message:
  "snd (consume_partition dec gen s (Message raw fault # evs)) =
     snd (consume_partition dec gen (snd (process_message dec gen fault s raw)) evs)"
  by (simp add: case_prod_beta)

lemma consume_partition_snd_Error:
  "snd (consume_partition dec gen s (ConsumerError # evs)) = snd (consume_partition dec gen s evs)"
  by (simp add: case_prod_beta)

lemma pstep_cost: "\<not> pidle p \<Longrightarrow> pcost (fst (pstep dec gen p s)) < pcost p"
proof (cases p)
  case (PThread c evs)
  assume np: "\<not> pidle p"
  show ?thesis
  proof (cases c)
    case None
    show ?thesis
    proof (cases evs)
      case Nil
      with np PThread None show ?thesis by simp
    next
      case (Cons ev evs')
      with PThread None show ?thesis by (cases ev) (auto split: sum.splits)
    qed
  next
    case (Some t)
    with PThread show ?thesis
      using tstep_cost[of t s] finished_tcost[of t] by (auto split: prod.splits)
  qed
qed

lemma pcstep_cost: "pcstep dec gen c c' \<Longrightarrow> sum_list (map pcost (snd c')) < sum_list (map pcost (snd c))"
proof (induction rule: pcstep.induct)
  case (step i ps s p' s')
  have "pcost p' < pcost (ps ! i)" using pstep_cost[OF step(2), of dec gen s] step(3) by simp
  with sum_list_map_update[OF step(1), of pcost p'] show ?case by simp
qed

lemma pcstep_progress:
  "\<not> list_all pidle ps \<Longrightarrow> \<exists>c'. pcstep dec gen (s, ps) c'"
proof -
  assume "\<not> list_all pidle ps"
  then obtain i where i: "i < length ps" "\<not> pidle (ps ! i)" by (auto simp: list_all_length)
  obtain p' s' where "pstep dec gen (ps ! i) s = (p', s')" by fastforce
  with i show ?thesis by (blast intro: pcstep.step)
qed

lemma run_pschedule_reach: "(pcstep dec gen)\<^sup>*\<^sup>* c (run_pschedule dec gen is c)"
  by (rule run_sched_reach) (rule pcstep.step, simp_all)

lemma pcall_finished: "\<not> (\<exists>t evs. p = PThread (Some t) evs \<and> \<not> finished t) \<Longrightarrow> finished (pcall p)"
  by (cases p rule: pcall.cases) auto

lemma pidle_finished: "pidle p \<Longrightarrow> finished (pcall p)"
  by (cases p rule: pcall.cases) auto

lemma pkeys_pcall: "thread_key (pcall p) = Some k \<Longrightarrow> k \<in> set (pkeys dec p)"
  by (cases p rule: pcall.cases) auto

lemma partitions_disjoint_keys: "partitions_disjoint dec ps \<Longrightarrow> keys_distinct (map pcall ps)"
  unfolding keys_distinct_def
proof (intro allI impI)
  fix i j assume pd: "partitions_disjoint dec ps" and i: "i < length (map pcall ps)"
    and j: "j < length (map pcall ps)" and ij: "i \<noteq> j"
  show "thread_key (map pcall ps ! i) = None \<or> thread_key (map pcall ps ! i) \<noteq> thread_key (map pcall ps ! j)"
  proof (cases "thread_key (pcall (ps ! i))")
    case (Some k)
    have "set (pkeys dec (ps ! i)) \<inter> set (pkeys dec (ps ! j)) = {}"
      using pd i j ij unfolding partitions_disjoint_def by simp
    with pkeys_pcall[OF Some, of dec] have "thread_key (pcall (ps ! j)) \<noteq> Some k"
      using pkeys_pcall[of "ps ! j" k dec] by blast
    with Some i j show ?thesis by simp
  qed (use i in simp)
qed

lemma partitions_disjoint_update:
  assumes pd: "partitions_disjoint dec ps" and i: "i < length ps"
    and sub: "set (pkeys dec p') \<subseteq> set (pkeys dec (ps ! i))"
  shows "partitions_disjoint dec (ps[i := p'])"
  unfolding partitions_disjoint_def
proof (intro allI impI)
  fix a b assume a: "a < length (ps[i := p'])" and b: "b < length (ps[i := p'])" and ab: "a \<noteq> b"
  have "set (pkeys dec (ps ! a)) \<inter> set (pkeys dec (ps ! b)) = {}"
    using pd a b ab unfolding partitions_disjoint_def by simp
  with sub ab i show "set (pkeys dec (ps[i := p'] ! a)) \<inter> set (pkeys dec (ps[i := p'] ! b)) = {}"
    by (cases "a = i"; cases "b = i") (auto simp: nth_list_update)
qed

lemma pstep_pkeys: "set (pkeys dec (fst (pstep dec gen p s))) \<subseteq> set (pkeys dec p)"
proof (cases p)
  case (PThread c evs)
  show ?thesis
  proof (cases c)
    case None
    with PThread show ?thesis
      by (cases evs rule: list.exhaust; cases "hd evs")
         (auto simp: assign_uid_def split: sum.splits)
  next
    case (Some t)
    with PThread tstep_key[of t s] show ?thesis by (auto split: prod.splits option.splits)
  qed
qed

lemma pstep_pfits: "pfits dec p \<Longrightarrow> pfits dec (fst (pstep dec gen p s))"
proof (cases p)
  case (PThread c evs)
  assume "pfits dec p"
  with PThread show ?thesis
    by (cases c; cases evs rule: list.exhaust; cases "hd evs") (auto split: sum.splits prod.splits)
qed

text \<open>Between calls a partition changes no state, and the call it starts is fresh.\<close>

lemma pstep_between_calls:
  assumes nc: "\<not> (\<exists>t evs. p = PThread (Some t) evs \<and> \<not> finished t)" and fits: "pfits dec p"
    and st: "pstep dec gen p s = (p', s')"
  shows "s' = s \<and> thread_ok tbl (pcall p') \<and> (\<forall>od. pcall p' \<noteq> CreateCache od)"
proof (cases p)
  case (PThread c evs)
  show ?thesis
  proof (cases c)
    case None
    with PThread st fits show ?thesis
      by (cases evs rule: list.exhaust; cases "hd evs")
         (auto simp: assign_uid_def split: sum.splits if_splits)
  next
    case (Some t)
    with PThread nc have "finished t" by blast
    with Some PThread st show ?thesis by auto
  qed
qed

text \<open>A returned call may be replaced by any call that has not written the store.\<close>

lemma cinv_replace_finished:
  assumes cv: "cinv (s, ts)" and i: "i < length ts" and fin: "finished (ts ! i)"
    and ok: "thread_ok (db s) t'" and kd: "keys_distinct (ts[i := t'])"
  shows "cinv (s, ts[i := t'])"
proof -
  have wf: "table_wf (db s)" and oks: "list_all (thread_ok (db s)) ts"
    and cc: "\<And>k od. cache s k = Some od \<Longrightarrow> entry_ok (db s) k od \<or> pending ts k"
    using cv unfolding cinv_parts by blast+
  have oks': "list_all (thread_ok (db s)) (ts[i := t'])"
    using list_all_update_nth[of ts i "thread_ok (db s)" t'] ok oks by (simp add: list_all_length)
  have nci: "\<forall>od. ts ! i \<noteq> CreateCache od" using fin by auto
  have "entry_ok (db s) k od \<or> pending (ts[i := t']) k" if "cache s k = Some od" for k od
    using cc[OF that] pending_update[OF _ i, of k t'] nci by blast
  with wf kd oks' show ?thesis unfolding cinv_parts by blast
qed

lemma pcstep_pinv: "pcstep dec gen c c' \<Longrightarrow> pinv dec c \<Longrightarrow> pinv dec c'"
proof (induction rule: pcstep.induct)
  case (step i ps s p' s')
  have cv: "cinv (s, map pcall ps)" and pd: "partitions_disjoint dec ps"
    and pf: "list_all (pfits dec) ps" using step.prems by (simp_all add: pinv_def)
  have fi: "pfits dec (ps ! i)" using pf step(1) by (simp add: list_all_length)
  have pd': "partitions_disjoint dec (ps[i := p'])"
    using partitions_disjoint_update[OF pd step(1)] pstep_pkeys[of dec gen "ps ! i" s] step(3) by simp
  have pf': "list_all (pfits dec) (ps[i := p'])"
    using list_all_update_nth[of ps i "pfits dec" p'] pf pstep_pfits[OF fi, of gen s] step(3)
    by (simp add: list_all_length)
  have "cinv (s', map pcall (ps[i := p']))"
  proof (cases "\<exists>t evs. ps ! i = PThread (Some t) evs \<and> \<not> finished t")
    case True
    then obtain t evs where pi: "ps ! i = PThread (Some t) evs" "\<not> finished t" by blast
    obtain t' where st: "tstep t s = (t', s')" and p': "p' = PThread (Some t') evs"
      using step(3) pi by (auto split: prod.splits)
    have "cstep (s, map pcall ps) (s', (map pcall ps)[i := t'])"
      using pi step(1) st by (intro cstep.step) simp_all
    from cstep_cinv[OF this cv] p' show ?thesis by (simp add: map_update)
  next
    case False
    from pstep_between_calls[OF False fi step(3), of "db s"]
    have s': "s' = s" and ok: "thread_ok (db s) (pcall p')" by simp_all
    have "keys_distinct ((map pcall ps)[i := pcall p'])"
      using partitions_disjoint_keys[OF pd'] by (simp add: map_update)
    from cinv_replace_finished[OF cv _ _ ok this] step(1) pcall_finished[OF False] s'
    show ?thesis by (simp add: map_update)
  qed
  with pd' pf' show ?case by (simp add: pinv_def)
qed

lemma reachable_pinv: "(pcstep dec gen)\<^sup>*\<^sup>* c c' \<Longrightarrow> pinv dec c \<Longrightarrow> pinv dec c'"
  by (induction rule: rtranclp_induct) (auto intro: pcstep_pinv)

lemma pinv_init:
  assumes "coherent s" and "partitions_disjoint dec (map (PThread None) evss)"
    and "list_all (pfits dec) (map (PThread None) evss)"
  shows "pinv dec (s, map (PThread None) evss)"
proof -
  have "cinv (s, map (\<lambda>_. CreateDone (Inr ())) evss)"
    using assms(1) unfolding cinv_parts coherent_def entry_ok_def keys_distinct_def pending_def
    by (auto simp: list_all_iff)
  with assms(2,3) show ?thesis by (simp add: pinv_def comp_def)
qed

lemma pinv_coherent: "pinv dec (s, ps) \<Longrightarrow> list_all pidle ps \<Longrightarrow> coherent s"
  using cinv_coherent[of s "map pcall ps"] pidle_finished
  by (auto simp: pinv_def all_finished_def list_all_iff)

subsection \<open>Properties of the partition threads\<close>

text \<open>
  A partition thread refines \<open>consumePartition\<close>.  Run alone, a partition thread
  consumes its events and reaches exactly the state of theory \<open>Consumer\<close>'s sequential
  loop \<open>consume_partition\<close> over the same events, on which C15 is proved.
\<close>

theorem partition_thread_refines:
  "(pcstep dec gen)\<^sup>*\<^sup>* (s, [PThread None evs]) (snd (consume_partition dec gen s evs), [PThread None []])"
proof (induction evs arbitrary: s)
  case (Cons ev evs)
  show ?case
  proof (cases ev)
    case ConsumerError
    have "pcstep dec gen (s, [PThread None (ev # evs)]) (s, [PThread None evs])"
      using ConsumerError by (intro pcstep_single) simp_all
    with Cons.IH[of s] ConsumerError show ?thesis
      by (simp only: consume_partition_snd_Error)
  next
    case (Message raw fault)
    have run: "(pcstep dec gen)\<^sup>*\<^sup>* (s, [PThread None (ev # evs)])
        (snd (process_message dec gen fault s raw), [PThread None evs])"
    proof (cases "\<exists>od. dec raw = Inr od \<and> OrderUID od \<noteq> []")
      case True
      then obtain od where "dec raw = Inr od" "OrderUID od \<noteq> []" by blast
      with Message show ?thesis using partition_message_run by simp
    next
      case False
      then have st: "snd (process_message dec gen fault s raw) = s"
        by (auto simp: process_message_state split: sum.splits)
      have "pcstep dec gen (s, [PThread None (ev # evs)]) (s, [PThread None evs])"
        using False Message by (intro pcstep_single) (auto split: sum.splits)
      with st show ?thesis by simp
    qed
    with Cons.IH[of "snd (process_message dec gen fault s raw)"] Message show ?thesis
      by (simp only: consume_partition_snd_Message)
  qed
qed simp

text \<open>
  All partitions drain.  However many partition threads hold however many
  pending events, some schedule consumes every event of every partition and finishes
  every call: no configuration is stuck while work remains, and every step consumes
  part of the finite work left.
\<close>

theorem partitions_drain: "\<exists>c'. (pcstep dec gen)\<^sup>*\<^sup>* c c' \<and> list_all pidle (snd c')"
proof (induction "sum_list (map pcost (snd c))" arbitrary: c rule: less_induct)
  case less
  obtain s ps where c: "c = (s, ps)" by fastforce
  show ?case
  proof (cases "list_all pidle ps")
    case True
    with c show ?thesis by auto
  next
    case False
    from pcstep_progress[OF False] obtain c1 where c1: "pcstep dec gen (s, ps) c1" by blast
    from pcstep_cost[OF c1] c have "sum_list (map pcost (snd c1)) < sum_list (map pcost (snd c))"
      by simp
    from less[OF this] obtain c' where "(pcstep dec gen)\<^sup>*\<^sup>* c1 c'" "list_all pidle (snd c')" by blast
    with c1 c show ?thesis by (blast intro: converse_rtranclp_into_rtranclp)
  qed
qed

text \<open>
  C28 (concurrent partitions keep the cache coherent).  Start from a coherent service
  with every partition between messages, no identifier in the messages of two
  partitions and every identifier fitting its column.  However the partition threads
  and their \<open>CreateOrder\<close> calls interleave, once every partition has consumed its
  events the service is coherent again.  Within one partition an identifier may recur:
  its messages are processed one after the other.
\<close>

theorem partitions_coherent:
  assumes "coherent s" and "partitions_disjoint dec (map (PThread None) evss)"
    and "list_all (pfits dec) (map (PThread None) evss)"
    and "(pcstep dec gen)\<^sup>*\<^sup>* (s, map (PThread None) evss) (s', ps')" and "list_all pidle ps'"
  shows "coherent s'"
  using pinv_coherent[OF reachable_pinv[OF assms(4) pinv_init[OF assms(1-3)]] assms(5)] .

theorem partitions_coherent_witness:
  "coherent empty_svc \<and>
   partitions_disjoint (Inr :: order \<Rightarrow> string + order) (map (PThread None)
     [[Message (ex_order ''A1'' ''T1'') None, Message (ex_order ''A1'' ''T2'') None],
      [Message (ex_order ''B1'' ''T3'') None]]) \<and>
   list_all (pfits (Inr :: order \<Rightarrow> string + order)) (map (PThread None)
     [[Message (ex_order ''A1'' ''T1'') None, Message (ex_order ''A1'' ''T2'') None],
      [Message (ex_order ''B1'' ''T3'') None]]) \<and>
   (\<exists>c. (pcstep Inr ''x'')\<^sup>*\<^sup>* (empty_svc, map (PThread None)
          [[Message (ex_order ''A1'' ''T1'') None, Message (ex_order ''A1'' ''T2'') None],
           [Message (ex_order ''B1'' ''T3'') None]]) c \<and>
        list_all pidle (snd c) \<and> coherent (fst c))"
proof -
  let ?ps = "map (PThread None)
     [[Message (ex_order ''A1'' ''T1'') None, Message (ex_order ''A1'' ''T2'') None],
      [Message (ex_order ''B1'' ''T3'') None]]"
  let ?c = "run_pschedule Inr ''x'' [0, 1, 0, 1, 0, 1, 0, 1, 0, 0, 0, 0] (empty_svc, ?ps)"
  have c: "coherent empty_svc" by (simp add: coherent_def empty_svc_def table_wf_def)
  have d: "partitions_disjoint (Inr :: order \<Rightarrow> string + order) ?ps"
    by (simp add: partitions_disjoint_def ex_order_def All_less_Suc)
  have f: "list_all (pfits (Inr :: order \<Rightarrow> string + order)) ?ps" by (simp add: ex_order_def)
  have r: "(pcstep Inr ''x'')\<^sup>*\<^sup>* (empty_svc, ?ps) ?c" by (rule run_pschedule_reach)
  have i: "list_all pidle (snd ?c)" by (simp add: ex_eval)
  have co: "coherent (fst ?c)"
    by (rule partitions_coherent[OF c d f _ i, where gen = "''x''"]) (simp only: prod.collapse r)
  show ?thesis using c d f r i co by blast
qed

end
