(* ===== verification/Refinement.thy ===== *)
theory Refinement
  imports Service
begin

text \<open>
  What the service promises its callers, as an abstract specification: a map from
  identifier to the response a lookup returns.  \<open>view\<close> abstracts a state \<open>svc\<close> to that
  map (the cached order, or else the stored row, projected by \<open>modelToResponse\<close>);
  \<open>abs_step\<close> is the specification of each call on the map: a create that the store
  accepts overwrites one entry, a lookup changes nothing.  Whether the store accepts a
  write does not depend on the table (\<open>save_ok\<close>).  The lemmas show that the detailed
  calls of theory \<open>Service\<close> implement the specification.
\<close>

definition view :: "svc \<Rightarrow> uid \<Rightarrow> order_response option" where
  "view s k =
     map_option model_to_response
       (case cache s k of Some od \<Rightarrow> Some od | None \<Rightarrow> map_option row_to_order (db s k))"

definition save_ok :: "db_error option \<Rightarrow> order \<Rightarrow> bool" where
  "save_ok fault od \<longleftrightarrow> int4_ok (SmID od) \<and> fault = None \<and> columns_ok od"

fun abs_step :: "svc_op \<Rightarrow> (uid \<Rightarrow> order_response option) \<Rightarrow> uid \<Rightarrow> order_response option" where
  "abs_step (OpCreate gen fault od) m =
     (let od' = assign_uid gen od in
      if save_ok fault od' then m(OrderUID od' \<mapsto> model_to_response od') else m)"
| "abs_step (OpGet fault k) m = m"
| "abs_step (OpRestore env) m = m"

text \<open>The abstract lookup when the store answers.\<close>

definition abs_get :: "(uid \<Rightarrow> order_response option) \<Rightarrow> uid \<Rightarrow> repo_error + order_response" where
  "abs_get m k = (case m k of Some r \<Rightarrow> Inr r | None \<Rightarrow> Inl (ErrDb ErrNoRows))"

text \<open>The calls a running service receives: \<open>RestoreCacheFromDB\<close> only runs at start-up.\<close>

fun running_op :: "svc_op \<Rightarrow> bool" where
  "running_op (OpRestore _) \<longleftrightarrow> False"
| "running_op op \<longleftrightarrow> op_fits op"

subsection \<open>Lemmas\<close>

lemma exec_upsert_Inr_save_ok: "exec_upsert fault tbl od = Inr tbl' \<Longrightarrow> save_ok fault od"
  by (simp add: exec_upsert_Inr_iff save_ok_def)

lemma save_ok_exec_upsert: "save_ok fault od \<Longrightarrow> \<exists>tbl'. exec_upsert fault tbl od = Inr tbl'"
  by (simp add: exec_upsert_Inr_iff save_ok_def)

lemma create_view:
  assumes fits: "length (OrderUID (assign_uid gen od)) \<le> 255"
  shows "view (snd (create_order gen fault s od)) = abs_step (OpCreate gen fault od) (view s)"
proof (cases "exec_upsert fault (db s) (assign_uid gen od)")
  case (Inl e)
  then obtain e' where "create_order gen fault s od = (Inl e', s)" by (blast dest: create_order_exec_Inl)
  moreover have "\<not> save_ok fault (assign_uid gen od)"
    using Inl save_ok_exec_upsert[of fault "assign_uid gen od" "db s"] by auto
  ultimately show ?thesis by (simp add: Let_def)
next
  case (Inr tbl')
  let ?od = "assign_uid gen od"
  let ?k = "OrderUID ?od"
  have ok: "save_ok fault ?od" by (rule exec_upsert_Inr_save_ok[OF Inr])
  have tbl': "tbl' = (db s)(?k \<mapsto> upsert_row (db s ?k) (order_to_row ?od))"
    using exec_upsert_table[OF Inr] fits by simp
  have s': "snd (create_order gen fault s od) = s\<lparr>db := tbl', cache := (cache s)(?k \<mapsto> ?od)\<rparr>"
    using create_order_exec_Inr[OF Inr] by simp
  show ?thesis
  proof
    fix k
    show "view (snd (create_order gen fault s od)) k = abs_step (OpCreate gen fault od) (view s) k"
      using ok unfolding s' tbl' by (cases "k = ?k") (simp_all add: view_def Let_def split: option.split)
  qed
qed

lemma get_view: "view (snd (get_order_by_uid fault s k)) = view s"
proof
  fix k'
  show "view (snd (get_order_by_uid fault s k)) k' = view s k'"
    by (cases "k' = k")
       (auto simp: view_def get_order_by_uid_def repo_get_Inr_iff split: option.splits sum.splits)
qed

lemma svc_step_view:
  "running_op op \<Longrightarrow> view (svc_step op s) = abs_step op (view s)"
  by (cases op) (simp_all add: create_view get_view)

lemma restore_view:
  assumes wf: "table_wf (db s)" and empty: "cache s = Map.empty"
  shows "view (snd (restore_cache_from_db env s)) = view s"
proof (cases "get_all_orders env (db s)")
  case (Inl e)
  then show ?thesis by (simp add: restore_cache_from_db_def)
next
  case (Inr os)
  then have os: "os = fetch_orders (fetch_fault env) (db s) (rows env)"
    by (simp add: get_all_orders_def split: option.splits)
  have s': "snd (restore_cache_from_db env s) = s\<lparr>cache := upd_all OrderUID os Map.empty\<rparr>"
    using Inr empty by (simp add: restore_cache_from_db_def)
  show ?thesis
  proof
    fix k
    show "view (snd (restore_cache_from_db env s)) k = view s k"
    proof (cases "upd_all OrderUID os Map.empty k")
      case None
      with empty show ?thesis unfolding s' by (simp add: view_def)
    next
      case (Some x)
      from upd_all_cases[OF Some] have x: "x \<in> set os" "OrderUID x = k" by simp_all
      from fetch_orders_rows[OF wf x(1)[unfolded os]] x(2) obtain r
        where "db s k = Some r" "x = row_to_order r" by blast
      with Some empty show ?thesis unfolding s' by (simp add: view_def)
    qed
  qed
qed

subsection \<open>The service refines the abstract map\<close>

text \<open>
  C23 (refinement of the running service).  For every sequence of \<open>CreateOrder\<close> and
  \<open>GetOrderByUID\<close> calls whose created identifiers fit their column, abstracting the
  state after the calls gives the map the specification computes from the abstraction
  of the state before: each accepted create overwrites its identifier's response, every
  other call leaves the map alone.  No coherence is assumed.
\<close>

theorem svc_run_refines_abstract:
  assumes "list_all running_op ops"
  shows "view (svc_run ops s) = fold abs_step ops (view s)"
  using assms by (induction ops arbitrary: s) (simp_all add: svc_step_view)

theorem svc_run_refines_abstract_witness:
  "list_all running_op [OpCreate ''x'' None (ex_order ''A1'' ''T1''), OpGet (Some ConnError) ''B2''] \<and>
   view (svc_run [OpCreate ''x'' None (ex_order ''A1'' ''T1''), OpGet (Some ConnError) ''B2''] empty_svc) =
   fold abs_step [OpCreate ''x'' None (ex_order ''A1'' ''T1''), OpGet (Some ConnError) ''B2'']
     (view empty_svc)"
proof -
  have r: "list_all running_op [OpCreate ''x'' None (ex_order ''A1'' ''T1''), OpGet (Some ConnError) ''B2'']"
    by (simp add: assign_uid_def ex_order_def)
  from svc_run_refines_abstract[OF r, of empty_svc] r show ?thesis by simp
qed

text \<open>
  C24 (lookups answer the abstract map).  When the store answers, \<open>GetOrderByUID\<close>
  returns exactly the abstract lookup of the identifier: the response in the map, or
  not-found; and it never changes the map, even when it fills the cache.
\<close>

theorem get_answers_view:
  "fst (get_order_by_uid None s k) = abs_get (view s) k \<and>
   view (snd (get_order_by_uid fault s k)) = view s"
  using get_view[of fault s k]
  by (auto simp: get_order_by_uid_def abs_get_def view_def repo_get_order_by_uid_def select_row_def
      split: option.splits)

text \<open>
  C25 (a cold start is invisible).  Over a well-formed table, the service
  \<open>NewOrderService\<close> builds answers every identifier exactly as the bare store does,
  whatever the restore's enumeration delivers or skips.
\<close>

theorem cold_start_invisible:
  assumes "table_wf tbl"
  shows "view (new_order_service env tbl) = view \<lparr>db = tbl, cache = Map.empty\<rparr>"
  unfolding new_order_service_def using assms by (intro restore_view) simp_all

theorem cold_start_invisible_witness:
  "table_wf [''A1'' \<mapsto> order_to_row (ex_order ''A1'' ''T1'')] \<and>
   view (new_order_service \<lparr>query_fault = None, rows = [Inr ''A1''], fetch_fault = \<lambda>_. None\<rparr>
           [''A1'' \<mapsto> order_to_row (ex_order ''A1'' ''T1'')]) =
   view \<lparr>db = [''A1'' \<mapsto> order_to_row (ex_order ''A1'' ''T1'')], cache = Map.empty\<rparr>"
proof -
  have wf: "table_wf [''A1'' \<mapsto> order_to_row (ex_order ''A1'' ''T1'')]"
    by (simp add: table_wf_def row_fits_def order_to_row_def ex_order_def varchar_def int4_ok_def
        pg_timestamptz_def)
  from cold_start_invisible[OF wf] wf show ?thesis by blast
qed

end
