(* ===== verification/Interfaces.thy ===== *)
theory Interfaces
  imports Findings
begin

text \<open>
  The Go interface \<open>OrderRepository\<close> (repository/order_repo.go) and the service written
  against it (service/order_service.go).  \<open>orderService\<close> holds its repository as an
  interface value; here that value is a record of its three methods over the
  repository's own state \<open>'st\<close>, each method taking the environment of its call: \<open>'se\<close>
  for \<open>SaveOrder\<close> (the generated identifier and the fault), \<open>'ge\<close> for
  \<open>GetOrderByUID\<close> (the fault), \<open>'ae\<close> for \<open>GetAllOrders\<close> (the scan).
  \<open>NewOrderRepository\<close> is the record of theory \<open>Repository\<close>'s functions over the
  table.  The service operations are written once over any repository; instantiated
  with \<open>NewOrderRepository\<close> they are the operations of theory \<open>Service\<close>.

  The client's lemmas hold for every repository, or for every repository that meets the
  store contract of the spec (section 4.3: what a successful \<open>SaveOrder\<close> stored, a
  point lookup returns).  The implementation's lemmas say where \<open>orderRepo\<close> meets that
  contract (a new identifier and an order its columns hold exactly) and where it does
  not (an existing identifier, a timestamp finer than microseconds).
\<close>

record ('se, 'ge, 'ae, 'st) order_repository =
  SaveOrder :: "'se \<Rightarrow> 'st \<Rightarrow> order \<Rightarrow> (repo_error + uid) \<times> order \<times> 'st"
  GetOrderByUID :: "'ge \<Rightarrow> 'st \<Rightarrow> uid \<Rightarrow> repo_error + order"
  GetAllOrders :: "'ae \<Rightarrow> 'st \<Rightarrow> repo_error + order list"

type_synonym pg_repository =
  "(uid \<times> db_error option, db_error option, scan_env, orders_table) order_repository"

text \<open>\<open>NewOrderRepository\<close>: the \<open>orderRepo\<close> over the pool, whose state is the table.\<close>

definition new_order_repository :: pg_repository where
  "new_order_repository =
     \<lparr>SaveOrder = (\<lambda>(gen, fault). save_order gen fault),
      GetOrderByUID = repo_get_order_by_uid,
      GetAllOrders = get_all_orders\<rparr>"

text \<open>The \<open>orderService\<close> struct: the repository's state and the cache.\<close>

record 'st order_service =
  repo_state :: 'st
  svc_cache :: "uid \<rightharpoonup> order"

definition create_order_with ::
  "('se, 'ge, 'ae, 'st) order_repository \<Rightarrow> 'se \<Rightarrow> 'st order_service \<Rightarrow> order \<Rightarrow>
     (repo_error + unit) \<times> 'st order_service" where
  "create_order_with R e s od =
     (case SaveOrder R e (repo_state s) od of
        (Inl err, _, st') \<Rightarrow> (Inl err, s\<lparr>repo_state := st'\<rparr>)
      | (Inr _, od', st') \<Rightarrow>
          (Inr (), s\<lparr>repo_state := st', svc_cache := (svc_cache s)(OrderUID od' \<mapsto> od')\<rparr>))"

definition get_order_with ::
  "('se, 'ge, 'ae, 'st) order_repository \<Rightarrow> 'ge \<Rightarrow> 'st order_service \<Rightarrow> uid \<Rightarrow>
     (repo_error + order_response) \<times> 'st order_service" where
  "get_order_with R e s k =
     (case svc_cache s k of
        Some od \<Rightarrow> (Inr (model_to_response od), s)
      | None \<Rightarrow>
          (case GetOrderByUID R e (repo_state s) k of
             Inl err \<Rightarrow> (Inl err, s)
           | Inr od \<Rightarrow> (Inr (model_to_response od), s\<lparr>svc_cache := (svc_cache s)(k \<mapsto> od)\<rparr>)))"

definition restore_with ::
  "('se, 'ge, 'ae, 'st) order_repository \<Rightarrow> 'ae \<Rightarrow> 'st order_service \<Rightarrow>
     (repo_error + unit) \<times> 'st order_service" where
  "restore_with R e s =
     (case GetAllOrders R e (repo_state s) of
        Inl err \<Rightarrow> (Inl err, s)
      | Inr orders \<Rightarrow> (Inr (), s\<lparr>svc_cache := upd_all OrderUID orders (svc_cache s)\<rparr>))"

definition new_order_service_with ::
  "('se, 'ge, 'ae, 'st) order_repository \<Rightarrow> 'ae \<Rightarrow> 'st \<Rightarrow> 'st order_service" where
  "new_order_service_with R e st = snd (restore_with R e \<lparr>repo_state = st, svc_cache = Map.empty\<rparr>)"

text \<open>
  The store contract of the spec, for the orders \<open>P\<close> admits: a successful
  \<open>SaveOrder\<close> returns the identifier of the order it leaves behind its pointer, and a
  point lookup of that identifier in the new state returns that order.
\<close>

definition store_contract ::
  "('st \<Rightarrow> order \<Rightarrow> bool) \<Rightarrow> ('se, 'ge, 'ae, 'st) order_repository \<Rightarrow> 'se \<Rightarrow> 'ge \<Rightarrow> bool" where
  "store_contract P R es eg \<longleftrightarrow>
     (\<forall>st od u od' st'. P st od \<longrightarrow> SaveOrder R es st od = (Inr u, od', st') \<longrightarrow>
        u = OrderUID od' \<and> GetOrderByUID R eg st' u = Inr od')"

text \<open>The state of theory \<open>Service\<close> as the state of the service over \<open>orderRepo\<close>.\<close>

definition svc_of :: "svc \<Rightarrow> orders_table order_service" where
  "svc_of s = \<lparr>repo_state = db s, svc_cache = cache s\<rparr>"

subsection \<open>The service of theory \<open>Service\<close> is the service over \<open>orderRepo\<close>\<close>

lemma create_order_via_repository:
  "create_order_with new_order_repository (gen, fault) (svc_of s) od =
     map_prod id svc_of (create_order gen fault s od)"
  by (cases "save_order gen fault (db s) od")
     (auto simp: create_order_with_def create_order_def new_order_repository_def svc_of_def
           split: sum.splits)

lemma get_order_via_repository:
  "get_order_with new_order_repository fault (svc_of s) k = map_prod id svc_of (get_order_by_uid fault s k)"
  by (simp add: get_order_with_def get_order_by_uid_def new_order_repository_def svc_of_def
      split: option.splits sum.splits)

lemma restore_via_repository:
  "restore_with new_order_repository env (svc_of s) = map_prod id svc_of (restore_cache_from_db env s)"
  by (simp add: restore_with_def restore_cache_from_db_def new_order_repository_def svc_of_def
      split: sum.splits)

lemma new_order_service_via_repository:
  "new_order_service_with new_order_repository env tbl = svc_of (new_order_service env tbl)"
  using restore_via_repository[of env "\<lparr>db = tbl, cache = Map.empty\<rparr>"]
  by (simp add: new_order_service_with_def new_order_service_def svc_of_def)

subsection \<open>The client's lemmas, for every repository\<close>

lemma create_order_with_Inr:
  "create_order_with R e s od = (Inr (), s') \<Longrightarrow>
     \<exists>u od'. SaveOrder R e (repo_state s) od = (Inr u, od', repo_state s') \<and>
       svc_cache s' = (svc_cache s)(OrderUID od' \<mapsto> od')"
  by (auto simp: create_order_with_def split: prod.splits sum.splits)

lemma create_order_with_Inl:
  "create_order_with R e s od = (Inl err, s') \<Longrightarrow> svc_cache s' = svc_cache s"
  by (auto simp: create_order_with_def split: prod.splits sum.splits)

lemma get_order_with_hit:
  "svc_cache s k = Some od \<Longrightarrow> get_order_with R e s k = (Inr (model_to_response od), s)"
  by (simp add: get_order_with_def)

lemma get_order_with_miss:
  "svc_cache s k = None \<Longrightarrow> GetOrderByUID R e (repo_state s) k = Inr od \<Longrightarrow>
     get_order_with R e s k = (Inr (model_to_response od), s\<lparr>svc_cache := (svc_cache s)(k \<mapsto> od)\<rparr>)"
  by (simp add: get_order_with_def)

text \<open>Read-your-write needs nothing of the store: the lookup is answered from the cache.\<close>

lemma create_then_get_with:
  assumes "create_order_with R es s od = (Inr (), s')"
  shows "\<exists>od'. get_order_with R eg s' (OrderUID od') = (Inr (model_to_response od'), s')"
proof -
  obtain u od' where "svc_cache s' = (svc_cache s)(OrderUID od' \<mapsto> od')"
    using create_order_with_Inr[OF assms] by blast
  then have "get_order_with R eg s' (OrderUID od') = (Inr (model_to_response od'), s')"
    by (simp add: get_order_with_hit)
  then show ?thesis by blast
qed

text \<open>No operation over any repository removes a cached identifier.\<close>

lemma dom_create_order_with: "dom (svc_cache s) \<subseteq> dom (svc_cache (snd (create_order_with R e s od)))"
  by (auto simp: create_order_with_def split: prod.splits sum.splits)

lemma dom_get_order_with: "dom (svc_cache s) \<subseteq> dom (svc_cache (snd (get_order_with R e s k)))"
  by (auto simp: get_order_with_def split: option.splits sum.splits)

lemma dom_restore_with: "dom (svc_cache s) \<subseteq> dom (svc_cache (snd (restore_with R e s)))"
  by (auto simp: restore_with_def dom_upd_all split: sum.splits)

text \<open>
  Durability across a restart, for a repository that meets the store contract: a
  service whose cache has lost the order (restarted, the restore failed) still answers
  with the order the create cached, read from the store.
\<close>

lemma durable_after_restart:
  assumes sc: "store_contract P R es eg" and p: "P (repo_state s) od"
    and c: "create_order_with R es s od = (Inr (), s')"
  shows "\<exists>u od'. SaveOrder R es (repo_state s) od = (Inr u, od', repo_state s') \<and>
           svc_cache s' (OrderUID od') = Some od' \<and>
           get_order_with R eg (s'\<lparr>svc_cache := Map.empty\<rparr>) (OrderUID od') =
             (Inr (model_to_response od'), s'\<lparr>svc_cache := [OrderUID od' \<mapsto> od']\<rparr>)"
proof -
  obtain u od' where sv: "SaveOrder R es (repo_state s) od = (Inr u, od', repo_state s')"
    and ca: "svc_cache s' = (svc_cache s)(OrderUID od' \<mapsto> od')"
    using create_order_with_Inr[OF c] by blast
  have "u = OrderUID od'" "GetOrderByUID R eg (repo_state s') u = Inr od'"
    using sc p sv unfolding store_contract_def by blast+
  then have "get_order_with R eg (s'\<lparr>svc_cache := Map.empty\<rparr>) (OrderUID od') =
      (Inr (model_to_response od'), s'\<lparr>svc_cache := [OrderUID od' \<mapsto> od']\<rparr>)"
    by (simp add: get_order_with_def)
  with sv ca show ?thesis by auto
qed

subsection \<open>The implementation's lemmas: where \<open>orderRepo\<close> meets the store contract\<close>

lemma save_order_Inr:
  "save_order gen fault tbl od = (Inr u, od', tbl') \<Longrightarrow>
     od' = assign_uid gen od \<and> u = OrderUID od' \<and> exec_upsert fault tbl od' = Inr tbl'"
  by (auto simp: save_order_def Let_def split: sum.splits db_error.splits if_splits)

lemma db_exact_roundtrip: "db_exact od \<Longrightarrow> row_to_order (order_to_row od) = od"
  by (cases od) (simp add: row_to_order_order_to_row db_exact_def)

text \<open>A new identifier and an order the columns hold exactly: the contract holds.\<close>

lemma pg_store_contract_fresh:
  "store_contract (\<lambda>tbl od. db_exact (assign_uid gen od) \<and> tbl (OrderUID (assign_uid gen od)) = None)
     new_order_repository (gen, fault) None"
  unfolding store_contract_def
proof (intro allI impI)
  fix tbl od u od' tbl'
  assume p: "db_exact (assign_uid gen od) \<and> tbl (OrderUID (assign_uid gen od)) = None"
    and sv: "SaveOrder new_order_repository (gen, fault) tbl od = (Inr u, od', tbl')"
  from sv have "save_order gen fault tbl od = (Inr u, od', tbl')" by (simp add: new_order_repository_def)
  from save_order_Inr[OF this] have od': "od' = assign_uid gen od" and u: "u = OrderUID od'"
    and ex: "exec_upsert fault tbl od' = Inr tbl'" by blast+
  have key: "c_order_uid (order_to_row od') = OrderUID od'"
    using p od' by (simp add: db_exact_def)
  have "tbl' (OrderUID od') = Some (order_to_row od')"
    using exec_upsert_table[OF ex] key p od' by (simp add: upsert_row_def)
  then show "u = OrderUID od' \<and> GetOrderByUID new_order_repository None tbl' u = Inr od'"
    using u p od' db_exact_roundtrip
    by (simp add: new_order_repository_def repo_get_order_by_uid_def select_row_def)
qed

text \<open>
  An existing identifier: the upsert keeps the stored locale, so the lookup returns
  another order than the one saved.
\<close>

lemma pg_store_contract_fails_existing:
  "\<not> store_contract (\<lambda>tbl od. db_exact od) new_order_repository (gen, None) None"
proof
  let ?tbl = "[''A1'' \<mapsto> order_to_row (ex_order ''A1'' ''T1'')]"
  let ?od = "(ex_order ''A1'' ''T2'')\<lparr>Locale := ''ru''\<rparr>"
  let ?tbl' = "[''A1'' \<mapsto> kept_columns (order_to_row (ex_order ''A1'' ''T1'')) (order_to_row ?od)]"
  assume sc: "store_contract (\<lambda>tbl od. db_exact od) new_order_repository (gen, None) None"
  have ex: "db_exact ?od" by (simp add: db_exact_def ex_order_def)
  have sv: "SaveOrder new_order_repository (gen, None) ?tbl ?od = (Inr ''A1'', ?od, ?tbl')"
    by (simp add: new_order_repository_def save_order_def exec_upsert_def Let_def assign_uid_def
        ex_order_def columns_ok_def varchar_ok_def int4_ok_def upsert_row_Some varchar_def)
  have "''A1'' = OrderUID ?od \<and> GetOrderByUID new_order_repository None ?tbl' ''A1'' = Inr ?od"
    by (rule sc[unfolded store_contract_def, rule_format, OF _ sv]) (rule ex)
  then show False
    by (simp add: new_order_repository_def repo_get_order_by_uid_def select_row_def
        row_to_order_def kept_columns_def order_to_row_def ex_order_def)
qed

text \<open>
  A creation time with a sub-microsecond part: the \<open>TIMESTAMPTZ\<close> column drops it, so
  even a new identifier reads back as another order.
\<close>

lemma pg_store_contract_fails_timestamp:
  "\<not> store_contract (\<lambda>tbl od. tbl (OrderUID od) = None) new_order_repository (gen, None) None"
proof
  let ?od = "(ex_order ''A1'' ''T1'')\<lparr>DateCreated := 1\<rparr>"
  let ?tbl' = "[''A1'' \<mapsto> order_to_row ?od]"
  assume sc: "store_contract (\<lambda>tbl od. tbl (OrderUID od) = None) new_order_repository (gen, None) None"
  have sv: "SaveOrder new_order_repository (gen, None) Map.empty ?od = (Inr ''A1'', ?od, ?tbl')"
    by (simp add: new_order_repository_def save_order_def exec_upsert_def Let_def assign_uid_def
        ex_order_def columns_ok_def varchar_ok_def int4_ok_def upsert_row_def order_to_row_def varchar_def)
  have "''A1'' = OrderUID ?od \<and> GetOrderByUID new_order_repository None ?tbl' ''A1'' = Inr ?od"
    by (rule sc[unfolded store_contract_def, rule_format, OF _ sv]) simp
  then show False
    by (simp add: new_order_repository_def repo_get_order_by_uid_def select_row_def
        row_to_order_def order_to_row_def ex_order_def pg_timestamptz_def)
qed

lemma svc_of_inject: "svc_of a = svc_of b \<longleftrightarrow> a = b"
  by (cases a, cases b) (simp add: svc_of_def)

text \<open>
  C30 (a created order survives a restart).  The client's durability lemma, discharged
  for \<open>orderRepo\<close>: when \<open>CreateOrder\<close> succeeds for an order whose identifier is
  new to the store and whose fields the columns hold exactly, a service that has lost
  its cache (restarted, its restore failed) answers \<open>GetOrderByUID\<close> from the store
  with exactly the projection of that order, and caches it.
\<close>

theorem pg_durable_fresh:
  assumes ex: "db_exact (assign_uid gen od)" and fr: "db s (OrderUID (assign_uid gen od)) = None"
    and c: "create_order gen fault s od = (Inr (), s')"
  shows "get_order_by_uid None (s'\<lparr>cache := Map.empty\<rparr>) (OrderUID (assign_uid gen od)) =
           (Inr (model_to_response (assign_uid gen od)),
            s'\<lparr>cache := [OrderUID (assign_uid gen od) \<mapsto> assign_uid gen od]\<rparr>)"
proof -
  have c': "create_order_with new_order_repository (gen, fault) (svc_of s) od = (Inr (), svc_of s')"
    using c by (simp add: create_order_via_repository)
  have p: "db_exact (assign_uid gen od) \<and> repo_state (svc_of s) (OrderUID (assign_uid gen od)) = None"
    using ex fr by (simp add: svc_of_def)
  from durable_after_restart[OF pg_store_contract_fresh[of gen fault], OF p c']
  obtain u od' where sv: "SaveOrder new_order_repository (gen, fault) (db s) od = (Inr u, od', db s')"
    and g: "get_order_with new_order_repository None ((svc_of s')\<lparr>svc_cache := Map.empty\<rparr>) (OrderUID od') =
              (Inr (model_to_response od'), (svc_of s')\<lparr>svc_cache := [OrderUID od' \<mapsto> od']\<rparr>)"
    by (auto simp: svc_of_def)
  have od': "od' = assign_uid gen od"
    using sv save_order_Inr[of gen fault "db s" od u od' "db s'"] by (simp add: new_order_repository_def)
  obtain r t where rt: "get_order_by_uid None (s'\<lparr>cache := Map.empty\<rparr>) (OrderUID od') = (r, t)"
    by fastforce
  have "svc_of (s'\<lparr>cache := Map.empty\<rparr>) = (svc_of s')\<lparr>svc_cache := Map.empty\<rparr>"
    "svc_of (s'\<lparr>cache := [OrderUID od' \<mapsto> od']\<rparr>) = (svc_of s')\<lparr>svc_cache := [OrderUID od' \<mapsto> od']\<rparr>"
    by (simp_all add: svc_of_def)
  with g rt get_order_via_repository[of None "s'\<lparr>cache := Map.empty\<rparr>" "OrderUID od'"]
  have "r = Inr (model_to_response od')" "svc_of t = svc_of (s'\<lparr>cache := [OrderUID od' \<mapsto> od']\<rparr>)"
    by simp_all
  with rt od' show ?thesis by (simp add: svc_of_inject)
qed

theorem pg_durable_fresh_witness:
  "db_exact (assign_uid ''x'' (ex_order ''A1'' ''T1'')) \<and>
   db empty_svc (OrderUID (assign_uid ''x'' (ex_order ''A1'' ''T1''))) = None \<and>
   create_order ''x'' None empty_svc (ex_order ''A1'' ''T1'') =
     (Inr (), \<lparr>db = [''A1'' \<mapsto> order_to_row (ex_order ''A1'' ''T1'')],
               cache = [''A1'' \<mapsto> ex_order ''A1'' ''T1'']\<rparr>) \<and>
   get_order_by_uid None
     (\<lparr>db = [''A1'' \<mapsto> order_to_row (ex_order ''A1'' ''T1'')],
       cache = [''A1'' \<mapsto> ex_order ''A1'' ''T1'']\<rparr>\<lparr>cache := Map.empty\<rparr>)
     (OrderUID (assign_uid ''x'' (ex_order ''A1'' ''T1''))) =
   (Inr (model_to_response (assign_uid ''x'' (ex_order ''A1'' ''T1''))),
    \<lparr>db = [''A1'' \<mapsto> order_to_row (ex_order ''A1'' ''T1'')],
     cache = [''A1'' \<mapsto> ex_order ''A1'' ''T1'']\<rparr>\<lparr>cache :=
       [OrderUID (assign_uid ''x'' (ex_order ''A1'' ''T1'')) \<mapsto> assign_uid ''x'' (ex_order ''A1'' ''T1'')]\<rparr>)"
proof -
  have ex: "db_exact (assign_uid ''x'' (ex_order ''A1'' ''T1''))"
    by (simp add: db_exact_def assign_uid_def ex_order_def)
  have fr: "db empty_svc (OrderUID (assign_uid ''x'' (ex_order ''A1'' ''T1''))) = None"
    by (simp add: empty_svc_def)
  show ?thesis using pg_durable_fresh[OF ex fr ex_create] ex fr ex_create by blast
qed

end
