(* ===== verification/Lookups.thy ===== *)
theory Lookups
  imports Interleaving
begin

text \<open>
  Concurrent lookups alone.  The spec (section 4.1) accepts that two concurrent misses
  for one identifier both read the store and both write the cache, as safe because the
  data is the same.  Theory \<open>Interleaving\<close> shows that a miss racing a create of its
  identifier is not safe (C18).  Here: however many \<open>GetOrderByUID\<close> calls, on any
  identifiers, shared or not, interleave, the store is untouched and the service stays
  coherent at every step, since each call fills the cache with a scan of the row the
  store still holds.
\<close>

fun lookup_thread :: "thread \<Rightarrow> bool" where
  "lookup_thread (GetStart _ _) \<longleftrightarrow> True"
| "lookup_thread (GetFetch _ _) \<longleftrightarrow> True"
| "lookup_thread (GetFill _ _) \<longleftrightarrow> True"
| "lookup_thread (GetDone _) \<longleftrightarrow> True"
| "lookup_thread _ \<longleftrightarrow> False"

text \<open>The invariant: a coherent service and lookups that know the store as it is.\<close>

definition linv :: "orders_table \<Rightarrow> svc \<times> thread list \<Rightarrow> bool" where
  "linv tbl c \<longleftrightarrow> db (fst c) = tbl \<and> coherent (fst c) \<and>
     list_all (\<lambda>t. lookup_thread t \<and> thread_ok tbl t) (snd c)"

subsection \<open>Lemmas\<close>

lemma lookup_tstep: "lookup_thread t \<Longrightarrow> lookup_thread (fst (tstep t s))"
  by (cases t rule: lookup_thread.cases) (auto split: option.splits sum.splits)

lemma lookup_tstep_db: "lookup_thread t \<Longrightarrow> db (snd (tstep t s)) = db s"
  by (cases t rule: lookup_thread.cases) (auto split: option.splits sum.splits)

lemma lookup_tstep_coherent:
  assumes l: "lookup_thread t" and ok: "thread_ok (db s) t" and coh: "coherent s"
  shows "coherent (snd (tstep t s))"
proof (cases t)
  case (GetFill k od)
  with ok obtain r where r: "db s k = Some r" and od: "od = row_to_order r" by auto
  have "OrderUID od = k \<and> length k \<le> 255 \<and> (\<exists>r'. db s k = Some r' \<and> mirrors r' od)"
    using row_entry_coherent[OF coherent_table_wf[OF coh] r] od by simp
  then have "coherent (s\<lparr>cache := (cache s)(k \<mapsto> od)\<rparr>)"
    by (intro coherent_cache_intro[OF coherent_table_wf[OF coh]])
       (auto split: if_splits dest: coherent_entry[OF coh])
  with GetFill show ?thesis by simp
qed (use l coh in \<open>auto split: option.splits sum.splits\<close>)

lemma cstep_linv: "cstep c c' \<Longrightarrow> linv tbl c \<Longrightarrow> linv tbl c'"
proof (induction rule: cstep.induct)
  case (step i ts s t' s')
  have d: "db s = tbl" and coh: "coherent s"
    and all: "list_all (\<lambda>t. lookup_thread t \<and> thread_ok tbl t) ts"
    using step.prems by (simp_all add: linv_def)
  have li: "lookup_thread (ts ! i)" and oki: "thread_ok tbl (ts ! i)"
    using all step(1) by (simp_all add: list_all_length)
  have d': "db s' = tbl" using lookup_tstep_db[OF li, of s] step(3) d by simp
  have coh': "coherent s'" using lookup_tstep_coherent[OF li _ coh] oki d step(3) by simp
  have "lookup_thread t' \<and> thread_ok tbl t'"
    using lookup_tstep[OF li, of s] tstep_thread_ok[OF coherent_table_wf[OF coh], of "ts ! i"]
      oki d d' step(3) by simp
  then have "list_all (\<lambda>t. lookup_thread t \<and> thread_ok tbl t) (ts[i := t'])"
    using all list_all_update_nth[of ts i "\<lambda>t. lookup_thread t \<and> thread_ok tbl t" t']
    by (simp add: list_all_length)
  with d' coh' show ?case by (simp add: linv_def)
qed

lemma reachable_linv: "cstep\<^sup>*\<^sup>* c c' \<Longrightarrow> linv tbl c \<Longrightarrow> linv tbl c'"
  by (induction rule: rtranclp_induct) (auto intro: cstep_linv)

text \<open>
  C29 (concurrent lookups are safe, spec section 4.1).  However many
  \<open>GetOrderByUID\<close> calls, on shared identifiers or not, interleave from a coherent
  service, at every step of every interleaving the store is unchanged and the service
  is coherent: each miss fills the cache under the requested key with the scan of the
  row the store still holds.
\<close>

theorem concurrent_lookups_coherent:
  assumes coh: "coherent s" and gets: "list_all (\<lambda>t. \<exists>k f. t = GetStart k f) ts"
    and run: "cstep\<^sup>*\<^sup>* (s, ts) (s', ts')"
  shows "coherent s' \<and> db s' = db s"
proof -
  have "linv (db s) (s, ts)"
    using coh gets by (auto simp: linv_def list_all_iff)
  from reachable_linv[OF run this] show ?thesis by (simp add: linv_def)
qed

text \<open>
  The accepted waste: two lookups of a stored but uncached order that both miss before
  either fills both read the store, then both write the same scan into the cache and
  answer the same response.
\<close>

lemma double_miss_same_answer:
  "run_schedule [0, 1, 0, 1, 0, 1]
     (\<lparr>db = [''A1'' \<mapsto> order_to_row (ex_order ''A1'' ''T1'')], cache = Map.empty\<rparr>,
      [GetStart ''A1'' None, GetStart ''A1'' None]) =
   (\<lparr>db = [''A1'' \<mapsto> order_to_row (ex_order ''A1'' ''T1'')],
     cache = [''A1'' \<mapsto> row_to_order (order_to_row (ex_order ''A1'' ''T1''))]\<rparr>,
    [GetDone (Inr (model_to_response (row_to_order (order_to_row (ex_order ''A1'' ''T1''))))),
     GetDone (Inr (model_to_response (row_to_order (order_to_row (ex_order ''A1'' ''T1'')))))])"
  by (simp add: repo_get_order_by_uid_def select_row_def)

theorem concurrent_lookups_coherent_witness:
  "coherent \<lparr>db = [''A1'' \<mapsto> order_to_row (ex_order ''A1'' ''T1'')], cache = Map.empty\<rparr> \<and>
   list_all (\<lambda>t. \<exists>k f. t = GetStart k f) [GetStart ''A1'' None, GetStart ''A1'' None] \<and>
   cstep\<^sup>*\<^sup>* (\<lparr>db = [''A1'' \<mapsto> order_to_row (ex_order ''A1'' ''T1'')], cache = Map.empty\<rparr>,
             [GetStart ''A1'' None, GetStart ''A1'' None])
     (\<lparr>db = [''A1'' \<mapsto> order_to_row (ex_order ''A1'' ''T1'')],
       cache = [''A1'' \<mapsto> row_to_order (order_to_row (ex_order ''A1'' ''T1''))]\<rparr>,
      [GetDone (Inr (model_to_response (row_to_order (order_to_row (ex_order ''A1'' ''T1''))))),
       GetDone (Inr (model_to_response (row_to_order (order_to_row (ex_order ''A1'' ''T1'')))))]) \<and>
   coherent \<lparr>db = [''A1'' \<mapsto> order_to_row (ex_order ''A1'' ''T1'')],
             cache = [''A1'' \<mapsto> row_to_order (order_to_row (ex_order ''A1'' ''T1''))]\<rparr>"
proof -
  have c: "coherent \<lparr>db = [''A1'' \<mapsto> order_to_row (ex_order ''A1'' ''T1'')], cache = Map.empty\<rparr>"
    by (rule coherent_uncached[OF table_wf_A1])
  have g: "list_all (\<lambda>t. \<exists>k f. t = GetStart k f) [GetStart ''A1'' None, GetStart ''A1'' None]"
    by simp
  have r: "cstep\<^sup>*\<^sup>* (\<lparr>db = [''A1'' \<mapsto> order_to_row (ex_order ''A1'' ''T1'')], cache = Map.empty\<rparr>,
             [GetStart ''A1'' None, GetStart ''A1'' None])
     (\<lparr>db = [''A1'' \<mapsto> order_to_row (ex_order ''A1'' ''T1'')],
       cache = [''A1'' \<mapsto> row_to_order (order_to_row (ex_order ''A1'' ''T1''))]\<rparr>,
      [GetDone (Inr (model_to_response (row_to_order (order_to_row (ex_order ''A1'' ''T1''))))),
       GetDone (Inr (model_to_response (row_to_order (order_to_row (ex_order ''A1'' ''T1'')))))])"
    using run_schedule_reach[of "(\<lparr>db = [''A1'' \<mapsto> order_to_row (ex_order ''A1'' ''T1'')], cache = Map.empty\<rparr>,
      [GetStart ''A1'' None, GetStart ''A1'' None])" "[0, 1, 0, 1, 0, 1]"]
    unfolding double_miss_same_answer .
  show ?thesis using concurrent_lookups_coherent[OF c g r] c g r by simp
qed

end
