(* ===== verification/Spec2Isabelle.thy ===== *)
theory Spec2Isabelle
  imports Findings Server Startup Partitions Refinement Interfaces Lookups
begin

text \<open>
  \<^bold>\<open>A verification model of cache-app.\<close>

  cache-app ingests order events from Kafka, stores them in PostgreSQL and answers
  lookups by order identifier from an in-memory cache.  Its parts, leaves first:
  \<^item> the \<open>orders\<close> table (src/internal/repository/db.go, \<open>NewPostgresDB\<close>,
    \<open>createTables\<close>);
  \<^item> the repository (src/internal/repository/order_repo.go): \<open>SaveOrder\<close> (an upsert),
    \<open>GetOrderByUID\<close>, \<open>GetAllOrders\<close>;
  \<^item> the cache service (src/internal/service/order_service.go): a Go map guarded by one
    \<open>sync.RWMutex\<close>, with \<open>CreateOrder\<close> (write-through), \<open>GetOrderByUID\<close>
    (read-through), \<open>RestoreCacheFromDB\<close> (cold start, run by \<open>NewOrderService\<close>) and the
    projection \<open>modelToResponse\<close>;
  \<^item> the Kafka consumer (src/internal/kafka/consumer.go), one loop per partition,
    decoding, validating and handing each order to \<open>CreateOrder\<close>;
  \<^item> the HTTP interface (src/internal/api/handler/order_handler.go, src/internal/api/router.go)
    over \<open>GetOrderByUID\<close>;
  \<^item> the configuration (src/internal/config/config.go) and \<open>main\<close>
    (src/cmd/server/main.go), which connects, builds the service, starts the consumer and
    serves HTTP, so that consumer goroutines and request goroutines share one service.

  \<^bold>\<open>Theories.\<close>
  \<^item> \<open>Prelude\<close>: the type of identifiers, the theorem collections, and the facts on
    folds of map updates (\<open>upd_all\<close>, the Go loop \<open>m[key(x)] = x\<close>), and the
    scheduler \<open>run_sched\<close> shared by the interleaving models, with the lemma that its
    runs are runs of the interleaving relation.
  \<^item> \<open>Model\<close>: the records \<open>order\<close>, \<open>delivery\<close>, \<open>payment\<close>, \<open>item\<close> and the
    response records (their Go packages are not among the sources; they follow the
    spec's attribute lists), and \<open>model_to_response\<close>/\<open>items_to_response\<close>, which
    translate \<open>modelToResponse\<close>/\<open>itemsToResponse\<close>.
  \<^item> \<open>Store\<close>: the table as a map from \<open>order_uid\<close> to a row; what the column types do to
    written values (\<open>VARCHAR(n)\<close> rejects longer strings with SQLSTATE 22001 unless the
    excess is spaces, which are cut; \<open>INTEGER\<close> is 32 bits and pgx refuses larger values;
    \<open>TIMESTAMPTZ\<close> keeps microseconds); the upsert \<open>exec_upsert\<close>, which on a conflict
    overwrites only the six columns of its \<open>SET\<close> list; select and scan; \<open>table_wf\<close>.
  \<^item> \<open>Repository\<close>: \<open>save_order\<close> (with the UUID fill-in \<open>assign_uid\<close> and the error
    mapping), \<open>repo_get_order_by_uid\<close>, \<open>get_all_orders\<close> over an enumeration
    \<open>scan_env\<close> chosen by the environment.
  \<^item> \<open>Service\<close>: the state \<open>svc\<close> (store and cache), \<open>create_order\<close>,
    \<open>get_order_by_uid\<close>, \<open>restore_cache_from_db\<close>, \<open>new_order_service\<close>, the
    interface as a datatype of calls \<open>svc_op\<close> with \<open>svc_step\<close>, runs \<open>svc_run\<close>, the
    invariant \<open>coherent\<close>, the properties C1--C8, and the error mapping of \<open>CreateOrder\<close>
    (\<open>create_order_result\<close>).
  \<^item> \<open>Findings\<close>: where cache and store drift apart (C9--C12).
  \<^item> \<open>Consumer\<close>: \<open>process_message\<close> and the partition loop \<open>consume_partition\<close>
    (C13--C15).
  \<^item> \<open>Api\<close>: \<open>handle_get_order_by_uid\<close>, \<open>health_check\<close>, the routes \<open>route_of\<close> and
    the dispatch \<open>serve\<close> (C16; \<open>serve_never_400\<close> supports a finding).
  \<^item> \<open>Interleaving\<close>: \<open>CreateOrder\<close> and \<open>GetOrderByUID\<close> split at their store statements
    and critical sections into threads (\<open>thread\<close>, \<open>tstep\<close>), any number of them
    interleaved by the inductive relation \<open>cstep\<close>, with the invariant \<open>cinv\<close> proved by
    rule induction, the invariant \<open>readable\<close> tying each thread to the call it started
    as, and a scheduler \<open>run_schedule\<close> that replays concrete traces (C17, C18, C26).  Supporting lemmas: run alone, a thread
    ends where the atomic call does (\<open>thread_runs_refine_calls\<close>), and every
    interleaving ends (\<open>interleaving_terminates\<close>, \<open>interleaving_completes\<close>).
  \<^item> \<open>Startup\<close>: \<open>RestoreCacheFromDB\<close> split into its key query, one fetch per key
    and its locked fill (\<open>sthread\<close>, \<open>sstep\<close>), as a thread beside the calls of
    \<open>Interleaving\<close> (\<open>scstep\<close>); run alone it ends where the atomic restore does
    (\<open>restore_thread_refines\<close>), and an overlap \<open>main\<close> never allows would leave a stale
    entry (\<open>restore_overlap_stale\<close>).
  \<^item> \<open>Partitions\<close>: the goroutines of \<open>Consumer.Start\<close>, one \<open>consumePartition\<close>
    loop per partition, as partition threads (\<open>pthread\<close>, \<open>pstep\<close>) that hold the
    \<open>CreateOrder\<close> call of their current message as a thread of \<open>Interleaving\<close> and
    the events still to come, interleaved by \<open>pcstep\<close>, with the invariant \<open>pinv\<close>
    (\<open>cinv\<close> of the calls the partitions run, partitions working on disjoint
    identifiers) proved by rule induction (C28).
  \<^item> \<open>Server\<close>: \<open>load_config\<close>, \<open>new_postgres_db\<close>, \<open>main_start\<close>, the running
    process \<open>sys_run\<close> over Kafka events and HTTP requests, \<open>Consumer.Start\<close>
    (\<open>consumer_start\<close>), the \<open>Consumer\<close> struct and \<open>NewConsumer\<close>
    (\<open>kafka_consumer\<close>, \<open>new_consumer\<close>, \<open>main_consumer\<close>) and every way \<open>main\<close> ends (\<open>main_exit\<close>, with Go's
    deferred calls and \<open>log.Fatalf\<close>) (C20--C22, C27).
  \<^item> \<open>Refinement\<close>: the abstract specification, a map from identifier to response
    (\<open>view\<close>, \<open>abs_step\<close>, \<open>abs_get\<close>), and the refinement lemmas (C23--C25).
  \<^item> \<open>Lookups\<close>: \<open>GetOrderByUID\<close> calls alone under interleaving, on shared
    identifiers or not: the store is untouched and the service coherent at every step
    (\<open>linv\<close>, C29), which is the spec's case for accepting
    duplicate misses; two overlapping misses of one identifier both read the store and
    answer the same (\<open>double_miss_same_answer\<close>).
  \<^item> \<open>Interfaces\<close>: the Go interface \<open>OrderRepository\<close> as a record of its three
    methods (\<open>order_repository\<close>), \<open>NewOrderRepository\<close> as the record of theory
    \<open>Repository\<close>'s functions (\<open>new_order_repository\<close>), and \<open>orderService\<close> written
    against any repository (\<open>create_order_with\<close>, \<open>get_order_with\<close>,
    \<open>restore_with\<close>).  Instantiated with \<open>orderRepo\<close> these are the operations of
    \<open>Service\<close>.  The client's lemmas hold for every repository (read-your-write, no
    shrinking cache), or for every repository meeting the spec's store contract
    (\<open>store_contract\<close>: a restarted service still answers a created order, C30
    for \<open>orderRepo\<close>).  The
    implementation's lemmas show that \<open>orderRepo\<close> meets the contract for new
    identifiers and exactly stored orders, and breaks it for an existing identifier
    and for timestamps finer than microseconds.
  \<^item> this theory: consumer, service and HTTP interface together (C19); the started
    process under interleaving and the consumer's messages as threads of the
    interleaving (\<open>served_interleavings_coherent\<close>, \<open>message_is_create_thread\<close>).

  \<^bold>\<open>Environment.\<close>  Connection failures and deadlines (the 5 s of the consumer, the
  10 s of the restore) are not functions of the data: every store statement takes a
  \<open>fault\<close> argument, \<open>None\<close> for success, so each theorem holds for every behaviour of
  the database that its hypotheses allow.  The UUID drawn by \<open>SaveOrder\<close> is the
  argument \<open>gen\<close>, the JSON decoder of the consumer the argument \<open>dec\<close>.  The Kafka loop
  never ends by design and is modelled on every finite prefix of its event stream.  No
  fuel is needed: every loop of the code is structural recursion over a list, and the
  one recursion that is not (\<open>run_thread\<close>) terminates by the measure \<open>tcost\<close>, the
  steps a call has left; the partition threads drain by the measure \<open>pcost\<close>, at most
  four steps per pending event besides the call's own.

  \<^bold>\<open>What the lemmas show.\<close>  Write-then-read (C1), last write wins (C2), failed writes
  invisible (C3), the coherence invariant over every sequential run (C4), exactly what
  a restore loads, and that restoring twice is restoring once (C5), cold start
  answering from the cache (C6), read-through (C7), no eviction (C8); the divergences:
  the partial upsert (C9), the store round trip (C10), identifier truncation (C11), the
  dropped response fields (C12); the consumer drops invalid messages (C13), makes
  processed orders readable (C14) and keeps coherence (C15); store outages answered as
  not found (C16); under any interleaving, calls on distinct identifiers keep
  coherence (C17) while a read-through racing a create of the same identifier leaves a
  stale entry (C18); a processed message is served over HTTP (C19); the running process
  keeps coherence (C20), tolerates a failed restore (C21), and its configuration is
  never empty (C22); the service refines the abstract map (C23), lookups answer the
  abstract map (C24), and a cold start is invisible (C25); under any interleaving on
  distinct identifiers every successful create is readable afterwards (C26);
  \<open>main\<close> releases its resources only on a clean shutdown (C27); concurrent
  partitions on disjoint identifiers leave the cache coherent (C28); concurrent lookups
  alone are safe even on one identifier (C29); an order created with a new identifier
  and exactly storable fields survives a restart (C30).

  \<^bold>\<open>Not modelled.\<close>  The Swagger route and the logging (no state); the
  constructors \<open>NewOrderHandler\<close> and \<open>NewRouter\<close>, which only store a reference to
  the service: the model passes the shared state \<open>svc\<close> to \<open>serve\<close> instead, and a
  copy of it in a record would not be a reference (\<open>NewOrderRepository\<close> and
  \<open>NewConsumer\<close> are modelled in \<open>Interfaces\<close> and \<open>Server\<close>; \<open>boot_env\<close> keeps
  the outcome of \<open>sarama.NewConsumer\<close> as \<open>consumer_ok\<close>); the two indexes
  \<open>createTables\<close> creates (they change no result); a store error reported after the
  commit, with the row written (a deadline or a lost connection at that moment): every
  failed statement is taken to leave the table unchanged.  The JSON encoding of the
  \<open>delivery\<close>, \<open>payment\<close> and \<open>items\<close> blobs is taken as a round trip; strings are
  sequences of characters (the byte/character distinction of UTF-8 and the rejection of
  NUL characters by PostgreSQL are not modelled).
\<close>

subsection \<open>Properties across components\<close>

text \<open>
  C19 (scenario A end to end).  When the consumer processes a message successfully,
  the HTTP request \<open>GET /api/v1/orders/<id>\<close> for the identifier it logged is answered
  with status 200 and the projection of the decoded order, from the cache, whatever
  the store does at that moment.
\<close>

theorem ingest_then_serve:
  assumes dec: "dec raw = Inr od"
    and pm: "process_message dec gen fault s raw = (Processed k, s')"
  shows "serve fault' s' [''api'', ''v1'', ''orders'', k] =
           (\<lparr>status = 200, body = JsonOrder (model_to_response od)\<rparr>, s')"
proof -
  from process_message_Processed[OF dec pm] have ne: "k \<noteq> []" and c: "cache s' k = Some od"
    by blast+
  have "get_order_by_uid fault' s' k = (Inr (model_to_response od), s')"
    by (rule get_order_by_uid_hit[OF c])
  moreover have "route_of [''api'', ''v1'', ''orders'', k] = RouteOrder k"
    using ne by (simp only: route_of_order simp_thms)
  ultimately show ?thesis using ne by (simp add: serve_def handle_get_order_by_uid_def)
qed

theorem ingest_then_serve_witness:
  "serve None \<lparr>db = [''A1'' \<mapsto> order_to_row (ex_order ''A1'' ''T1'')],
                cache = [''A1'' \<mapsto> ex_order ''A1'' ''T1'']\<rparr> [''api'', ''v1'', ''orders'', ''A1''] =
     (\<lparr>status = 200, body = JsonOrder (model_to_response (ex_order ''A1'' ''T1''))\<rparr>,
      \<lparr>db = [''A1'' \<mapsto> order_to_row (ex_order ''A1'' ''T1'')],
       cache = [''A1'' \<mapsto> ex_order ''A1'' ''T1'']\<rparr>)"
  using ingest_then_serve[where dec = "\<lambda>_. Inr (ex_order ''A1'' ''T1'')" and raw = "()",
          OF refl ex_process, of None]
  by simp

text \<open>
  The process as started keeps the cache coherent under any interleaving.  When
  \<open>main\<close> gets as far as serving over a well-formed table, its service has restored
  its cache before any goroutine runs (the order \<open>restore_overlap_stale\<close> shows to be needed); then
  however the steps of any number of \<open>CreateOrder\<close> and \<open>GetOrderByUID\<close> calls on
  distinct identifiers interleave, once all have returned the cache is coherent.
\<close>

theorem served_interleavings_coherent:
  assumes start: "main_start be = Inr s" and wf: "\<forall>t. existing be = Some t \<longrightarrow> table_wf t"
    and fr: "list_all fresh ts" and kd: "keys_distinct ts"
    and run: "cstep\<^sup>*\<^sup>* (s, ts) (s', ts')" and fin: "all_finished ts'"
  shows "coherent s'"
proof -
  from main_start_Inr[OF start] obtain tbl where db: "new_postgres_db be = Inr tbl"
    and s: "s = new_order_service (restore_scan be) tbl" by blast
  have "coherent s" unfolding s by (rule new_order_service_coherent[OF new_postgres_db_wf[OF db wf]])
  from cinv_coherent[OF reachable_cinv[OF run cinv_init[OF this fr kd]] fin] show ?thesis .
qed

theorem served_interleavings_coherent_witness:
  "main_start \<lparr>connect_fault = None, existing = None,
      restore_scan = \<lparr>query_fault = None, rows = [], fetch_fault = \<lambda>_. None\<rparr>, consumer_ok = True\<rparr> =
     Inr empty_svc \<and>
   coherent \<lparr>db = [''A1'' \<mapsto> order_to_row (ex_order ''A1'' ''T1'')],
             cache = [''A1'' \<mapsto> ex_order ''A1'' ''T1'']\<rparr>"
proof -
  let ?be = "\<lparr>connect_fault = None, existing = None,
      restore_scan = \<lparr>query_fault = None, rows = [], fetch_fault = \<lambda>_. None\<rparr>, consumer_ok = True\<rparr>"
  have wf: "\<forall>t. existing ?be = Some t \<longrightarrow> table_wf t" by simp
  have a: "all_finished [CreateDone (Inr ()), GetDone (Inl (ErrDb ErrNoRows))]"
    by (simp add: all_finished_def)
  from ex_threads_distinct have f: "list_all fresh [CreateStart ''x'' None (ex_order ''A1'' ''T1''),
      GetStart ''B2'' None]" and k: "keys_distinct [CreateStart ''x'' None (ex_order ''A1'' ''T1''),
      GetStart ''B2'' None]" by simp_all
  show ?thesis
    using ex_boot_empty served_interleavings_coherent[OF ex_boot_empty wf f k ex_trace_distinct a]
    by blast
qed

text \<open>
  Each partition's messages are \<open>CreateOrder\<close> threads.  For a message that
  decodes to an order with an identifier, \<open>processMessage\<close> has exactly the effect of
  running the \<open>CreateOrder\<close> thread of theory \<open>Interleaving\<close> to its end, and logs
  success exactly when that thread returns success.  So the goroutines \<open>Consumer.Start\<close>
  runs, one per partition, are threads of \<open>cstep\<close>, and C17 and C26 and \<open>interleaving_completes\<close> cover
  messages consumed concurrently from different partitions.
\<close>

theorem message_is_create_thread:
  assumes dec: "dec raw = Inr od" and ne: "OrderUID od \<noteq> []"
  shows "process_message dec gen fault s raw =
           (case fst (run_thread (CreateStart gen fault od) s) of
              CreateDone (Inl e) \<Rightarrow> CreateFailed (OrderUID od) e
            | _ \<Rightarrow> Processed (OrderUID od),
            snd (run_thread (CreateStart gen fault od) s))"
  using dec ne
  by (cases "create_order gen fault s od")
     (auto simp: process_message_def run_thread_create split: sum.splits)

theorem message_is_create_thread_witness:
  "process_message (\<lambda>_. Inr (ex_order ''A1'' ''T1'')) ''x'' None empty_svc () =
     (case fst (run_thread (CreateStart ''x'' None (ex_order ''A1'' ''T1'')) empty_svc) of
        CreateDone (Inl e) \<Rightarrow> CreateFailed (OrderUID (ex_order ''A1'' ''T1'')) e
      | _ \<Rightarrow> Processed (OrderUID (ex_order ''A1'' ''T1'')),
      snd (run_thread (CreateStart ''x'' None (ex_order ''A1'' ''T1'')) empty_svc))"
  by (rule message_is_create_thread) (simp_all add: ex_order_def)

end
